theory Spec2Isabelle
  imports Complex_Main
begin

section \<open>Lowering linear operators to coefficient matrices (cvxpy/lin\_ops/lin\_to\_matrix.py)\<close>

subsection \<open>Outcomes of a call\<close>

text \<open>
  A call of the source either returns a value, raises an exception, or never returns
  (the product loop can iterate over the list it is appending to).  The three outcomes are
  \<open>Some (Inr v)\<close>, \<open>Some (Inl e)\<close> and \<open>None\<close>.
\<close>

datatype error =
    UnknownLinearOperator   \<comment> \<open>\<open>Exception("Unknown linear operator.")\<close>\<close>
  | IndexError              \<comment> \<open>\<open>lin_op.args[i]\<close> past the end of the list\<close>
  | AssertionError          \<comment> \<open>\<open>assert len(coeffs) == 1\<close>\<close>
  | ValueError              \<comment> \<open>a numeric primitive refuses its operands\<close>
  | TypeError               \<comment> \<open>a payload or block of the wrong sort\<close>

type_synonym 'a outcome = "(error + 'a) option"

abbreviation returns :: "'a \<Rightarrow> 'a outcome" where
  "returns v \<equiv> Some (Inr v)"

abbreviation raises :: "error \<Rightarrow> 'a outcome" where
  "raises e \<equiv> Some (Inl e)"

fun bind :: "'a outcome \<Rightarrow> ('a \<Rightarrow> 'b outcome) \<Rightarrow> 'b outcome" where
  "bind None f = None"
| "bind (Some (Inl e)) f = Some (Inl e)"
| "bind (Some (Inr v)) f = f v"

fun lift :: "error + 'a \<Rightarrow> 'a outcome" where
  "lift r = Some r"

subsection \<open>Numeric blocks\<close>

text \<open>
  The blocks of the source are Python numbers, numpy matrices and scipy sparse matrices.
  A number is \<open>Scalar\<close>; a matrix, dense or sparse, is the list of its rows.  Entries are
  exact reals.
\<close>

datatype block = Scalar real | Matrix "real list list"

definition ncols :: "real list list \<Rightarrow> nat" where
  "ncols m = (case m of [] \<Rightarrow> 0 | r # _ \<Rightarrow> length r)"

definition eye :: "nat \<Rightarrow> real list list" where
  \<comment> \<open>\<open>sp.eye(n)\<close>\<close>
  "eye n = map (\<lambda>i. map (\<lambda>j. if i = j then 1 else 0) [0..<n]) [0..<n]"

definition zeros :: "nat \<Rightarrow> nat \<Rightarrow> real list list" where
  \<comment> \<open>\<open>interface.zeros(rows, cols)\<close>\<close>
  "zeros r c = replicate r (replicate c 0)"

definition set_entry :: "real list list \<Rightarrow> nat \<Rightarrow> nat \<Rightarrow> real \<Rightarrow> real list list" where
  \<comment> \<open>\<open>new_block[i, j] = v\<close>\<close>
  "set_entry m i j v = m[i := (m ! i)[j := v]]"

definition scale :: "real \<Rightarrow> real list list \<Rightarrow> real list list" where
  "scale a m = map (map (\<lambda>x. a * x)) m"

definition mat_mul :: "real list list \<Rightarrow> real list list \<Rightarrow> real list list" where
  \<comment> \<open>entry \<open>(i, j)\<close> is the sum over \<open>k\<close> of \<open>a[i,k] * b[k,j]\<close>\<close>
  "mat_mul a b =
     map (\<lambda>r. map (\<lambda>j. (\<Sum>k\<leftarrow>[0..<length b]. r ! k * b ! k ! j)) [0..<ncols b]) a"

fun neg_block :: "block \<Rightarrow> block" where
  \<comment> \<open>\<open>-block\<close>\<close>
  "neg_block (Scalar a) = Scalar (- a)"
| "neg_block (Matrix m) = Matrix (map (map uminus) m)"

fun mul_block :: "block \<Rightarrow> block \<Rightarrow> error + block" where
  \<comment> \<open>\<open>a*b\<close>: a number scales; two matrices are multiplied as matrices, and the inner
      dimensions must agree\<close>
  "mul_block (Scalar a) (Scalar b) = Inr (Scalar (a * b))"
| "mul_block (Scalar a) (Matrix m) = Inr (Matrix (scale a m))"
| "mul_block (Matrix m) (Scalar b) = Inr (Matrix (scale b m))"
| "mul_block (Matrix a) (Matrix b) =
     (if list_all (\<lambda>r. length r = length b) a then Inr (Matrix (mat_mul a b))
      else Inl ValueError)"

definition block_rows :: "block \<Rightarrow> real list list" where
  \<comment> \<open>a number seen as a 1 by 1 matrix\<close>
  "block_rows b = (case b of Scalar a \<Rightarrow> [[a]] | Matrix m \<Rightarrow> m)"

definition block_diag :: "nat \<Rightarrow> block \<Rightarrow> error + block" where
  \<comment> \<open>\<open>sp.block_diag(k*[b])\<close>: \<open>k\<close> copies of \<open>b\<close> along the diagonal; an empty list of
      blocks is refused\<close>
  "block_diag k b =
     (if k = 0 then Inl ValueError
      else let m = block_rows b; n = ncols m in
        Inr (Matrix (concat (map (\<lambda>c. map (\<lambda>r. replicate (c * n) 0 @ r @ replicate ((k - 1 - c) * n) 0) m)
                                  [0..<k]))))"

fun np_sum :: "block \<Rightarrow> block" where
  \<comment> \<open>\<open>np.sum(block)\<close>: the sum of all entries, a number\<close>
  "np_sum (Scalar a) = Scalar a"
| "np_sum (Matrix m) = Scalar (sum_list (map sum_list m))"

fun sum_axis0 :: "block \<Rightarrow> error + block" where
  \<comment> \<open>\<open>block.sum(axis=0)\<close>: one row holding the sum of each column; a Python number has
      no such method\<close>
  "sum_axis0 (Scalar a) = Inl TypeError"
| "sum_axis0 (Matrix m) = Inr (Matrix [map (\<lambda>j. (\<Sum>r\<leftarrow>m. r ! j)) [0..<ncols m]])"

subsection \<open>The interface and key helpers\<close>

fun is_scalar :: "block \<Rightarrow> bool" where
  \<comment> \<open>Modelled from the spec: \<open>intf.is_scalar\<close> is not part of the file; the spec's
      "scalar-shaped" is a number or a 1 by 1 matrix.\<close>
  "is_scalar (Scalar a) = True"
| "is_scalar (Matrix m) = (length m = 1 \<and> ncols m = 1)"

definition flatten :: "block \<Rightarrow> block" where
  \<comment> \<open>Modelled from the spec: \<open>const_to_matrix\<close> and \<open>reshape\<close> of the default interface
      are not part of the file; the spec's "flatten to a single column", in the column-major
      order that the transpose block below uses.\<close>
  "flatten b = (let m = block_rows b in
     Matrix (map (\<lambda>x. [x]) (concat (map (\<lambda>j. map (\<lambda>r. r ! j) m) [0..<ncols m]))))"

record slice =
  start :: "int option"
  stop :: "int option"
  step :: "int option"

definition slice_all :: slice where
  \<comment> \<open>\<open>slice(None, None, None)\<close>\<close>
  "slice_all = \<lparr>start = None, stop = None, step = None\<rparr>"

definition scale_slice :: "slice \<Rightarrow> nat \<Rightarrow> slice" where
  \<comment> \<open>Modelled from the spec: \<open>ku.scale_slice\<close> is not part of the file; the column slice
      is "scaled by the variable's row count": its start and stop are multiplied.\<close>
  "scale_slice s k = s\<lparr>start := map_option (\<lambda>v. v * int k) (start s),
                       stop := map_option (\<lambda>v. v * int k) (stop s)\<rparr>"

definition offset_slice :: "slice \<Rightarrow> nat \<Rightarrow> slice" where
  \<comment> \<open>Modelled from the spec: \<open>ku.offset_slice\<close> is not part of the file; the row slice is
      "offset by the block's position": the offset is added to its start and stop.\<close>
  "offset_slice s k = s\<lparr>start := map_option (\<lambda>v. v + int k) (start s),
                        stop := map_option (\<lambda>v. v + int k) (stop s)\<rparr>"

definition slice_indices :: "slice \<Rightarrow> nat \<Rightarrow> error + nat list" where
  \<comment> \<open>the positions a Python slice selects in a sequence of length \<open>n\<close>\<close>
  "slice_indices s n =
     (let st = (case step s of None \<Rightarrow> 1 | Some v \<Rightarrow> v); l = int n;
          wrap = (\<lambda>v. if v < 0 then v + l else v) in
      if st = 0 then Inl ValueError
      else if 0 < st then
        (let clamp = (\<lambda>v. if wrap v < 0 then 0 else if l < wrap v then l else wrap v);
             a = (case start s of None \<Rightarrow> 0 | Some v \<Rightarrow> clamp v);
             b = (case stop s of None \<Rightarrow> l | Some v \<Rightarrow> clamp v) in
         Inr (map nat (filter (\<lambda>i. (i - a) mod st = 0) [a..b - 1])))
      else
        (let clamp = (\<lambda>v. if wrap v < 0 then - 1 else if l \<le> wrap v then l - 1 else wrap v);
             a = (case start s of None \<Rightarrow> l - 1 | Some v \<Rightarrow> clamp v);
             b = (case stop s of None \<Rightarrow> - 1 | Some v \<Rightarrow> clamp v) in
         Inr (map nat (filter (\<lambda>i. (a - i) mod (- st) = 0) (rev [b + 1..a])))))"

definition select :: "'a list \<Rightarrow> slice \<Rightarrow> error + 'a list" where
  "select xs s = (case slice_indices s (length xs) of Inl e \<Rightarrow> Inl e
                  | Inr is \<Rightarrow> Inr (map (\<lambda>i. xs ! i) is))"

fun index :: "block \<Rightarrow> slice \<times> slice \<Rightarrow> error + block" where
  \<comment> \<open>Modelled from the spec: \<open>intf.index\<close> is not part of the file; "row/column slicing
      by an arbitrary slice descriptor (start, stop, step)": the rows the first slice selects,
      and of each the columns the second selects.  A number has nothing to slice.\<close>
  "index (Scalar a) key = Inr (Scalar a)"
| "index (Matrix m) (rk, ck) =
     (case select m rk of Inl e \<Rightarrow> Inl e
      | Inr rs \<Rightarrow>
         (case slice_indices ck (ncols m) of Inl e \<Rightarrow> Inl e
          | Inr js \<Rightarrow> Inr (Matrix (map (\<lambda>r. map (\<lambda>j. r ! j) js) rs))))"

subsection \<open>Operator trees and coefficient triples\<close>

text \<open>
  Modelled from the spec: the module \<open>lin_op\<close> (the kinds, the node type and
  \<open>CONSTANT_ID\<close>) is not part of the file.  A node has a kind, a shape, its children and
  a payload; \<open>OTHER\<close> stands for every tag the dispatcher does not name, and
  \<open>SUM_OP\<close> is \<open>lo.SUM\<close>.
\<close>

datatype op_type =
    VARIABLE | PARAM | SCALAR_CONST | DENSE_CONST | SPARSE_CONST
  | SUM_OP | NEG | MUL | SUM_ENTRIES | INDEX | TRANSPOSE
  | OTHER string

datatype payload =
    NoData
  | VarId nat                \<comment> \<open>the identifier of a variable\<close>
  | Param block              \<comment> \<open>a parameter, with its current \<open>value\<close>\<close>
  | Value block              \<comment> \<open>the literal of a constant\<close>
  | Key slice slice          \<comment> \<open>the row and column slices of an index\<close>

datatype lin_op =
  LinOp (type_op: op_type) (size_op: "nat \<times> nat") (args: "lin_op list") (data: payload)

datatype ident = CONSTANT_ID | Id nat

type_synonym coeff = "ident \<times> (nat \<times> nat) \<times> block"

subsection \<open>The per-triple steps of the loops\<close>

fun map_result :: "('a \<Rightarrow> error + 'b) \<Rightarrow> 'a list \<Rightarrow> error + 'b list" where
  \<comment> \<open>a \<open>for\<close> loop that appends one result per element and stops at the first raise\<close>
  "map_result f [] = Inr []"
| "map_result f (x # xs) =
     (case f x of Inl e \<Rightarrow> Inl e
      | Inr y \<Rightarrow> (case map_result f xs of Inl e \<Rightarrow> Inl e | Inr ys \<Rightarrow> Inr (y # ys)))"

fun sum_loop :: "coeff list \<Rightarrow> coeff list outcome list \<Rightarrow> coeff list outcome" where
  \<comment> \<open>\<open>for arg in lin_op.args: coeffs += get_coefficients(arg)\<close>, over the outcomes of the
      children in order\<close>
  "sum_loop coeffs [] = returns coeffs"
| "sum_loop coeffs (r # rest) = bind r (\<lambda>cs. sum_loop (coeffs @ cs) rest)"

fun sum_entries_term :: "coeff \<Rightarrow> error + coeff" where
  "sum_entries_term (id', sz, block) =
     (if id' = CONSTANT_ID then Inr (id', (1, 1), np_sum block)
      else (case sum_axis0 block of Inl e \<Rightarrow> Inl e | Inr b \<Rightarrow> Inr (id', sz, b)))"

fun neg_term :: "coeff \<Rightarrow> coeff" where
  "neg_term (id', sz, block) = (id', sz, neg_block block)"

fun mul_term :: "nat \<Rightarrow> coeff \<Rightarrow> coeff \<Rightarrow> error + coeff" where
  \<comment> \<open>the body of the inner loop of \<open>mul_coeffs\<close>; \<open>rep_mat\<close> is built before the test\<close>
  "mul_term cols (_, lh_size, constant) (id', rh_size, coeff) =
     (case block_diag cols constant of Inl e \<Rightarrow> Inl e
      | Inr rep_mat \<Rightarrow>
         (case (if is_scalar constant \<or> id' = CONSTANT_ID \<or> cols = 1 then mul_block constant coeff
                else if lh_size \<noteq> (1, 1) \<and> rh_size = (1, 1) then mul_block (flatten constant) coeff
                else mul_block rep_mat coeff) of
            Inl e \<Rightarrow> Inl e
          | Inr product \<Rightarrow> Inr (id', rh_size, product)))"

text \<open>
  The loops of \<open>mul_coeffs\<close>.  In the first pass of the outer loop \<open>rh_coeffs\<close> is the
  compiled right child and \<open>new_coeffs\<close> is a list of its own (\<open>mul_inner\<close>).  The pass ends
  with \<open>rh_coeffs = new_coeffs\<close>: from then on both names denote one list object, and the
  inner loop walks by position over the list it appends to (\<open>mul_inner_aliased\<close>, where
  \<open>i\<close> is the position of the list iterator).  That loop need not end.
\<close>

fun mul_inner :: "nat \<Rightarrow> coeff \<Rightarrow> coeff list \<Rightarrow> coeff list \<Rightarrow> error + coeff list" where
  "mul_inner cols lh [] new_coeffs = Inr new_coeffs"
| "mul_inner cols lh (rh # rest) new_coeffs =
     (case mul_term cols lh rh of Inl e \<Rightarrow> Inl e
      | Inr t \<Rightarrow> mul_inner cols lh rest (new_coeffs @ [t]))"

partial_function (option) mul_inner_aliased ::
  "nat \<Rightarrow> coeff \<Rightarrow> nat \<Rightarrow> coeff list \<Rightarrow> (error + coeff list) option" where
  "mul_inner_aliased cols lh i new_coeffs =
     (if i < length new_coeffs then
        (case mul_term cols lh (new_coeffs ! i) of Inl e \<Rightarrow> Some (Inl e)
         | Inr t \<Rightarrow> mul_inner_aliased cols lh (Suc i) (new_coeffs @ [t]))
      else Some (Inr new_coeffs))"

declare mul_inner_aliased.simps [code]

fun mul_outer_aliased :: "nat \<Rightarrow> coeff list \<Rightarrow> coeff list \<Rightarrow> coeff list outcome" where
  "mul_outer_aliased cols [] new_coeffs = returns new_coeffs"
| "mul_outer_aliased cols (lh # rest) new_coeffs =
     bind (mul_inner_aliased cols lh 0 new_coeffs) (mul_outer_aliased cols rest)"

definition mul_loop :: "nat \<Rightarrow> coeff list \<Rightarrow> coeff list \<Rightarrow> coeff list outcome" where
  "mul_loop cols lh_coeffs rh_coeffs =
     (case lh_coeffs of [] \<Rightarrow> returns []
      | lh # rest \<Rightarrow> bind (lift (mul_inner cols lh rh_coeffs [])) (mul_outer_aliased cols rest))"

fun index_rows :: "slice \<Rightarrow> nat \<Rightarrow> nat list \<Rightarrow> block \<Rightarrow> error + block" where
  \<comment> \<open>\<open>for col in range(cols): block = intf.index(block, row_key)\<close>: every pass slices the
      block the pass before left\<close>
  "index_rows k rows [] block = Inr block"
| "index_rows k rows (col # rest) block =
     (case index block (offset_slice k (col * rows), slice_all) of Inl e \<Rightarrow> Inl e
      | Inr b \<Rightarrow> index_rows k rows rest b)"

fun index_term :: "lin_op \<Rightarrow> lin_op \<Rightarrow> coeff \<Rightarrow> error + coeff" where
  \<comment> \<open>the body of the loop of \<open>index_coeffs\<close>; \<open>arg\<close> is \<open>lin_op.args[0]\<close>\<close>
  "index_term lin_op arg (id', sz, block) =
     (case data lin_op of
        Key k0 k1 \<Rightarrow>
          (if id' = CONSTANT_ID then
             (case index block (k0, k1) of Inl e \<Rightarrow> Inl e
              | Inr b \<Rightarrow> Inr (id', size_op lin_op, b))
           else
             (let (rows, cols) = (if sz = (1, 1) then size_op arg else (fst (size_op arg), snd sz)) in
              case index block (scale_slice k1 rows, slice_all) of Inl e \<Rightarrow> Inl e
              | Inr b \<Rightarrow>
                 (case index_rows k0 rows [0..<cols] b of Inl e \<Rightarrow> Inl e
                  | Inr b' \<Rightarrow> Inr (id', sz, b'))))
      | _ \<Rightarrow> Inl TypeError)"

definition transpose_block :: "nat \<Rightarrow> nat \<Rightarrow> real list list" where
  \<comment> \<open>the two loops of \<open>transpose_coeffs\<close> over the zero matrix\<close>
  "transpose_block rows cols =
     fold (\<lambda>row. fold (\<lambda>col new_block. set_entry new_block (row * cols + col) (col * rows + row) 1)
                       [0..<cols])
          [0..<rows] (zeros (rows * cols) (rows * cols))"

subsection \<open>The compiler\<close>

lemma bind_cong [fundef_cong]:
  "m = m' \<Longrightarrow> (\<And>v. m' = Some (Inr v) \<Longrightarrow> f v = f' v) \<Longrightarrow> bind m f = bind m' f'"
  by (cases m') (auto split: sum.splits, metis bind.simps obj_sumE)

lemma size_args: "a \<in> set (args n) \<Longrightarrow> size a < size n"
  by (cases n) (auto simp: less_Suc_eq_le size_list_estimation')

lemma size_args_hd: "args n = a # r \<Longrightarrow> size a < size n"
  using size_args [of a n] by simp

lemma size_args_hd2: "args n = a # b # r \<Longrightarrow> size b < size n"
  using size_args [of b n] by simp

text \<open>
  A payload that does not fit the kind of its node (a variable without an identifier, a
  constant without a literal, an index without a key) is reported as \<open>TypeError\<close>.
\<close>

function get_coefficients :: "lin_op \<Rightarrow> coeff list outcome"
  and sum_coeffs :: "lin_op \<Rightarrow> coeff list outcome"
  and sum_entries_coeffs :: "lin_op \<Rightarrow> coeff list outcome"
  and neg_coeffs :: "lin_op \<Rightarrow> coeff list outcome"
  and mul_coeffs :: "lin_op \<Rightarrow> coeff list outcome"
  and index_coeffs :: "lin_op \<Rightarrow> coeff list outcome"
  and transpose_coeffs :: "lin_op \<Rightarrow> coeff list outcome"
where
  "get_coefficients lin_op =
    (if type_op lin_op = VARIABLE then
       (case data lin_op of
          VarId v \<Rightarrow> returns [(Id v, size_op lin_op,
                                Matrix (eye (fst (size_op lin_op) * snd (size_op lin_op))))]
        | _ \<Rightarrow> raises TypeError)
     else if type_op lin_op = PARAM then
       (case data lin_op of
          Param v \<Rightarrow> returns [(CONSTANT_ID, size_op lin_op, v)]
        | _ \<Rightarrow> raises TypeError)
     else if type_op lin_op \<in> {SCALAR_CONST, DENSE_CONST, SPARSE_CONST} then
       (case data lin_op of
          Value v \<Rightarrow> returns [(CONSTANT_ID, size_op lin_op, v)]
        | _ \<Rightarrow> raises TypeError)
     else if type_op lin_op = SUM_OP then sum_coeffs lin_op
     else if type_op lin_op = NEG then neg_coeffs lin_op
     else if type_op lin_op = MUL then mul_coeffs lin_op
     else if type_op lin_op = SUM_ENTRIES then sum_entries_coeffs lin_op
     else if type_op lin_op = INDEX then index_coeffs lin_op
     else if type_op lin_op = TRANSPOSE then transpose_coeffs lin_op
     else raises UnknownLinearOperator)"
| "sum_coeffs lin_op = sum_loop [] (map get_coefficients (args lin_op))"
| "sum_entries_coeffs lin_op =
    (case args lin_op of [] \<Rightarrow> raises IndexError
     | arg # _ \<Rightarrow>
        bind (get_coefficients arg) (\<lambda>coeffs. lift (map_result sum_entries_term coeffs)))"
| "neg_coeffs lin_op =
    (case args lin_op of [] \<Rightarrow> raises IndexError
     | arg # _ \<Rightarrow> bind (get_coefficients arg) (\<lambda>coeffs. returns (map neg_term coeffs)))"
| "mul_coeffs lin_op =
    (case args lin_op of [] \<Rightarrow> raises IndexError
     | arg0 # rest \<Rightarrow>
        bind (get_coefficients arg0) (\<lambda>lh_coeffs.
          case rest of [] \<Rightarrow> raises IndexError
          | arg1 # _ \<Rightarrow>
             bind (get_coefficients arg1) (\<lambda>rh_coeffs.
               mul_loop (snd (size_op lin_op)) lh_coeffs rh_coeffs)))"
| "index_coeffs lin_op =
    (case args lin_op of [] \<Rightarrow> raises IndexError
     | arg # _ \<Rightarrow>
        bind (get_coefficients arg) (\<lambda>coeffs. lift (map_result (index_term lin_op arg) coeffs)))"
| "transpose_coeffs lin_op =
    (case args lin_op of [] \<Rightarrow> raises IndexError
     | arg # _ \<Rightarrow>
        bind (get_coefficients arg) (\<lambda>coeffs.
          case coeffs of
            [(id', (rows, cols), _)] \<Rightarrow>
              returns [(id', (rows, cols), Matrix (transpose_block rows cols))]
          | _ \<Rightarrow> raises AssertionError))"
  by pat_completeness auto
termination
  by (relation "measure (\<lambda>x. case x of
        Inl (Inl n) \<Rightarrow> 2 * size n + 1 | Inl (Inr (Inl n)) \<Rightarrow> 2 * size n
      | Inl (Inr (Inr n)) \<Rightarrow> 2 * size n | Inr (Inl (Inl n)) \<Rightarrow> 2 * size n
      | Inr (Inl (Inr n)) \<Rightarrow> 2 * size n | Inr (Inr (Inl n)) \<Rightarrow> 2 * size n
      | Inr (Inr (Inr n)) \<Rightarrow> 2 * size n)")
    (auto dest: size_args size_args_hd size_args_hd2)

declare get_coefficients.simps [simp del] sum_coeffs.simps [simp del]
  sum_entries_coeffs.simps [simp del] neg_coeffs.simps [simp del] mul_coeffs.simps [simp del]
  index_coeffs.simps [simp del] transpose_coeffs.simps [simp del]

subsection \<open>The recognized kinds and the nodes a compilation reaches\<close>

definition recognized :: "op_type set" where
  \<comment> \<open>the eleven kinds the dispatcher of \<open>get_coefficients\<close> names\<close>
  "recognized = {VARIABLE, PARAM, SCALAR_CONST, DENSE_CONST, SPARSE_CONST,
                 SUM_OP, NEG, MUL, SUM_ENTRIES, INDEX, TRANSPOSE}"

definition operands :: "lin_op \<Rightarrow> lin_op list" where
  \<comment> \<open>the children a case compiles, in the order of its calls: \<open>sum_coeffs\<close> loops over
     \<open>lin_op.args\<close>, \<open>mul_coeffs\<close> compiles \<open>args[0]\<close> and then \<open>args[1]\<close>, the other
     four cases compile \<open>args[0]\<close>; a leaf compiles no child\<close>
  "operands n =
     (if type_op n = SUM_OP then args n
      else if type_op n = MUL then take 2 (args n)
      else if type_op n \<in> {NEG, SUM_ENTRIES, INDEX, TRANSPOSE} then take 1 (args n)
      else [])"

fun first_raise :: "'a outcome list \<Rightarrow> error option" where
  \<comment> \<open>the error of the first call of a sequence that does not return, if it raises one\<close>
  "first_raise [] = None"
| "first_raise (None # rs) = None"
| "first_raise (Some (Inl e) # rs) = Some e"
| "first_raise (Some (Inr v) # rs) = first_raise rs"

fun in_order :: "(lin_op \<Rightarrow> lin_op list) \<Rightarrow> lin_op list \<Rightarrow> lin_op list" where
  \<comment> \<open>the nodes met while compiling a list of children one after the other: nothing
     after a child whose compilation does not return\<close>
  "in_order f [] = []"
| "in_order f (a # as) =
     f a @ (case get_coefficients a of Some (Inr v) \<Rightarrow> in_order f as | _ \<Rightarrow> [])"

lemma in_order_cong [fundef_cong]:
  "as = bs \<Longrightarrow> (\<And>a. a \<in> set bs \<Longrightarrow> f a = g a) \<Longrightarrow> in_order f as = in_order g bs"
  by (induction bs arbitrary: as) (auto split: option.splits sum.splits)

lemma size_operands: "a \<in> set (operands n) \<Longrightarrow> size a < size n"
  by (auto simp: operands_def split: if_splits dest: in_set_takeD size_args)

function reached :: "lin_op \<Rightarrow> lin_op list" where
  \<comment> \<open>the nodes on which \<open>get_coefficients\<close> is called while compiling \<open>n\<close>\<close>
  "reached n = n # in_order reached (operands n)"
  by pat_completeness auto
termination
  by (relation "measure size") (auto dest: size_operands)

declare reached.simps [simp del]

section \<open>Properties\<close>

subsection \<open>Dispatch on the kind\<close>

lemma get_coefficients_SUM_OP:
  "type_op n = SUM_OP \<Longrightarrow> get_coefficients n = sum_loop [] (map get_coefficients (args n))"
  by (simp add: get_coefficients.simps sum_coeffs.simps)

lemma get_coefficients_VARIABLE:
  "type_op v = VARIABLE \<Longrightarrow> data v = VarId i \<Longrightarrow> size_op v = (r, c) \<Longrightarrow>
     get_coefficients v = returns [(Id i, (r, c), Matrix (eye (r * c)))]"
  by (simp add: get_coefficients.simps)

lemma get_coefficients_NEG:
  "type_op n = NEG \<Longrightarrow> get_coefficients n = neg_coeffs n"
  by (simp add: get_coefficients.simps)

lemma get_coefficients_MUL:
  "type_op n = MUL \<Longrightarrow> get_coefficients n = mul_coeffs n"
  by (simp add: get_coefficients.simps)

lemma get_coefficients_SUM_ENTRIES:
  "type_op n = SUM_ENTRIES \<Longrightarrow> get_coefficients n = sum_entries_coeffs n"
  by (simp add: get_coefficients.simps)

lemma get_coefficients_INDEX:
  "type_op n = INDEX \<Longrightarrow> get_coefficients n = index_coeffs n"
  by (simp add: get_coefficients.simps)

lemma get_coefficients_TRANSPOSE:
  "type_op n = TRANSPOSE \<Longrightarrow> get_coefficients n = transpose_coeffs n"
  by (simp add: get_coefficients.simps)

lemma get_coefficients_OTHER:
  "type_op n \<notin> recognized \<Longrightarrow> get_coefficients n = raises UnknownLinearOperator"
  by (simp add: get_coefficients.simps recognized_def)

subsection \<open>Sums\<close>

lemma sum_loop_returns:
  "sum_loop acc (map returns css) = returns (acc @ concat css)"
  by (induction css arbitrary: acc) simp_all

text \<open>
  C7 (SUM linearity).  When the children of a \<open>SUM\<close> node compile, in order, to the lists
  \<open>css\<close>, the node compiles to their concatenation in that order: every triple of every
  child is there once, unchanged, and triples with the same identifier stay apart.
\<close>

theorem sum_coeffs_concatenates:
  assumes "type_op n = SUM_OP"
    and "map get_coefficients (args n) = map returns css"
  shows "get_coefficients n = returns (concat css)"
  using assms by (simp add: get_coefficients_SUM_OP sum_loop_returns)

text \<open>The sum of a variable with itself keeps both triples of the one identifier.\<close>

theorem sum_coeffs_concatenates_witness:
  "get_coefficients (LinOp SUM_OP (2, 1)
      [LinOp VARIABLE (2, 1) [] (VarId 0), LinOp VARIABLE (2, 1) [] (VarId 0)] NoData)
     = returns [(Id 0, (2, 1), Matrix [[1, 0], [0, 1]]), (Id 0, (2, 1), Matrix [[1, 0], [0, 1]])]"
  using sum_coeffs_concatenates [of "LinOp SUM_OP (2, 1)
      [LinOp VARIABLE (2, 1) [] (VarId 0), LinOp VARIABLE (2, 1) [] (VarId 0)] NoData"
     "[[(Id 0, (2, 1), Matrix [[1, 0], [0, 1]])], [(Id 0, (2, 1), Matrix [[1, 0], [0, 1]])]]"]
  by (simp add: get_coefficients.simps eye_def upt_rec)

subsection \<open>Products\<close>

text \<open>
  C6 (product, single column).  For the variable \<open>x\<close> of shape (2,1) and the dense constant
  \<open>c = [[1,2],[3,4]]\<close>, the node \<open>PRODUCT(c, x)\<close> of shape (2,1) compiles to exactly one
  triple: the identifier of \<open>x\<close>, the shape (2,1), and the block \<open>c\<close>.
\<close>

theorem mul_coeffs_single_column_example:
  "get_coefficients (LinOp MUL (2, 1)
      [LinOp DENSE_CONST (2, 2) [] (Value (Matrix [[1, 2], [3, 4]])),
       LinOp VARIABLE (2, 1) [] (VarId 0)] NoData)
     = returns [(Id 0, (2, 1), Matrix [[1, 2], [3, 4]])]"
  by code_simp

subsection \<open>Which errors a step can raise\<close>

lemma bind_raises:
  assumes "bind m f = raises e"
  shows "m = raises e \<or> (\<exists>v. m = returns v \<and> f v = raises e)"
proof (cases m)
  case None
  with assms show ?thesis by simp
next
  case (Some r)
  with assms show ?thesis by (cases r) auto
qed

lemma map_result_raises:
  "map_result f xs = Inl e \<Longrightarrow> \<exists>x \<in> set xs. f x = Inl e"
  by (induction xs) (auto split: sum.splits)

lemma sum_loop_raises:
  "sum_loop acc rs = raises e \<Longrightarrow> raises e \<in> set rs"
proof (induction rs arbitrary: acc)
  case Nil
  then show ?case by simp
next
  case (Cons r rs)
  from Cons.prems have "r = raises e \<or> (\<exists>v. r = returns v \<and> sum_loop (acc @ v) rs = raises e)"
    by (auto dest: bind_raises)
  with Cons.IH show ?case by auto
qed

lemma block_diag_raises: "block_diag k b = Inl e \<Longrightarrow> e = ValueError"
  by (auto simp: block_diag_def Let_def split: if_splits)

lemma mul_block_raises: "mul_block a b = Inl e \<Longrightarrow> e = ValueError"
  by (cases "(a, b)" rule: mul_block.cases) (auto split: if_splits)

lemma mul_term_raises: "mul_term cols lh rh = Inl e \<Longrightarrow> e = ValueError"
  by (cases "(cols, lh, rh)" rule: mul_term.cases)
     (auto split: sum.splits if_splits dest: block_diag_raises mul_block_raises)

lemma mul_inner_raises: "mul_inner cols lh rhs new = Inl e \<Longrightarrow> e = ValueError"
  by (induction rhs arbitrary: new) (auto split: sum.splits dest: mul_term_raises)

lemma mul_inner_aliased_raises:
  assumes "mul_inner_aliased cols lh i new = Some r"
  shows "r = Inl e \<Longrightarrow> e = ValueError"
proof -
  have "\<forall>e. r = Inl e \<longrightarrow> e = ValueError"
  proof (rule mul_inner_aliased.raw_induct
      [where P = "\<lambda>cols lh i new r. \<forall>e. r = Inl e \<longrightarrow> e = ValueError", OF _ assms])
    fix f cols lh i new r
    assume IH: "\<And>cols lh i new r. f cols lh i new = Some r \<Longrightarrow> \<forall>e. r = Inl e \<longrightarrow> e = ValueError"
      and step: "(if i < length new
           then case mul_term cols lh (new ! i) of Inl e \<Rightarrow> raises e
                | Inr t \<Rightarrow> f cols lh (Suc i) (new @ [t])
           else returns new) = Some r"
    show "\<forall>e. r = Inl e \<longrightarrow> e = ValueError"
    proof (cases "i < length new")
      case False
      with step show ?thesis by auto
    next
      case True
      show ?thesis
      proof (cases "mul_term cols lh (new ! i)")
        case (Inl e')
        with True step show ?thesis by (auto dest: mul_term_raises)
      next
        case (Inr t)
        with True step have "f cols lh (Suc i) (new @ [t]) = Some r" by simp
        then show ?thesis by (rule IH)
      qed
    qed
  qed
  then show "r = Inl e \<Longrightarrow> e = ValueError" by simp
qed

lemma mul_outer_aliased_raises:
  "mul_outer_aliased cols lhs new = raises e \<Longrightarrow> e = ValueError"
proof (induction lhs arbitrary: new)
  case Nil
  then show ?case by simp
next
  case (Cons lh lhs)
  then show ?case
    by (auto dest!: bind_raises dest: mul_inner_aliased_raises)
qed

lemma mul_loop_raises: "mul_loop cols lhs rhs = raises e \<Longrightarrow> e = ValueError"
  by (auto simp: mul_loop_def split: list.splits dest!: bind_raises
           dest: mul_inner_raises mul_outer_aliased_raises)

lemma sum_entries_term_raises: "sum_entries_term t = Inl e \<Longrightarrow> e = TypeError"
  by (cases t rule: sum_entries_term.cases)
     (auto split: if_splits sum.splits elim: sum_axis0.elims)

lemma slice_indices_raises: "slice_indices s n = Inl e \<Longrightarrow> e = ValueError"
  by (auto simp: slice_indices_def Let_def split: if_splits)

lemma index_raises: "index b k = Inl e \<Longrightarrow> e = ValueError"
  by (cases "(b, k)" rule: index.cases)
     (auto simp: select_def split: sum.splits dest: slice_indices_raises)

lemma index_rows_raises: "index_rows k rows cs b = Inl e \<Longrightarrow> e = ValueError"
  by (induction cs arbitrary: b) (auto split: sum.splits dest: index_raises)

lemma index_term_raises: "index_term n a t = Inl e \<Longrightarrow> e = ValueError \<or> e = TypeError"
  by (cases "(n, a, t)" rule: index_term.cases)
     (auto split: payload.splits if_splits sum.splits prod.splits
           dest: index_raises index_rows_raises)

subsection \<open>The unknown-operator error\<close>

lemma first_raise_iff:
  "first_raise rs = Some e \<longleftrightarrow>
     (\<exists>i < length rs. (\<forall>j < i. \<exists>v. rs ! j = returns v) \<and> rs ! i = raises e)"
proof (induction rs rule: first_raise.induct)
  case 1
  show ?case by simp
next
  case (2 rs)
  show ?case
  proof
    assume "\<exists>i < length (None # rs). (\<forall>j < i. \<exists>v. (None # rs) ! j = returns v) \<and> (None # rs) ! i = raises e"
    then obtain i where i: "\<forall>j < i. \<exists>v. (None # rs) ! j = returns v" "(None # rs) ! i = raises e"
      by blast
    then show "first_raise (None # rs) = Some e" by (cases i) auto
  qed simp
next
  case (3 e' rs)
  show ?case
  proof
    assume "first_raise (raises e' # rs) = Some e"
    then have "(\<forall>j < 0. \<exists>v. (raises e' # rs) ! j = returns v) \<and> (raises e' # rs) ! 0 = raises e"
      by simp
    then show "\<exists>i < length (raises e' # rs). (\<forall>j < i. \<exists>v. (raises e' # rs) ! j = returns v)
        \<and> (raises e' # rs) ! i = raises e"
      by (intro exI [of _ 0]) simp
  next
    assume "\<exists>i < length (raises e' # rs). (\<forall>j < i. \<exists>v. (raises e' # rs) ! j = returns v)
        \<and> (raises e' # rs) ! i = raises e"
    then obtain i where i: "\<forall>j < i. \<exists>v. (raises e' # rs) ! j = returns v" "(raises e' # rs) ! i = raises e"
      by blast
    then show "first_raise (raises e' # rs) = Some e" by (cases i) auto
  qed
next
  case (4 v rs)
  show ?case
  proof
    assume "first_raise (returns v # rs) = Some e"
    with 4 obtain i where i: "i < length rs" "\<forall>j < i. \<exists>v. rs ! j = returns v" "rs ! i = raises e"
      by auto
    have "\<forall>j < Suc i. \<exists>w. (returns v # rs) ! j = returns w"
    proof (intro allI impI)
      fix j assume "j < Suc i"
      with i(2) show "\<exists>w. (returns v # rs) ! j = returns w" by (cases j) auto
    qed
    with i show "\<exists>i < length (returns v # rs). (\<forall>j < i. \<exists>w. (returns v # rs) ! j = returns w)
        \<and> (returns v # rs) ! i = raises e"
      by (intro exI [of _ "Suc i"]) simp
  next
    assume "\<exists>i < length (returns v # rs). (\<forall>j < i. \<exists>w. (returns v # rs) ! j = returns w)
        \<and> (returns v # rs) ! i = raises e"
    then obtain i where i: "i < length (returns v # rs)"
        "\<forall>j < i. \<exists>w. (returns v # rs) ! j = returns w" "(returns v # rs) ! i = raises e"
      by blast
    then obtain i' where i': "i = Suc i'" by (cases i) auto
    with i have "i' < length rs" "rs ! i' = raises e" by simp_all
    moreover have "\<forall>j < i'. \<exists>w. rs ! j = returns w"
    proof (intro allI impI)
      fix j assume "j < i'"
      with i(2) i' have "\<exists>w. (returns v # rs) ! Suc j = returns w" by blast
      then show "\<exists>w. rs ! j = returns w" by simp
    qed
    ultimately have "first_raise rs = Some e" using 4 by blast
    then show "first_raise (returns v # rs) = Some e" by simp
  qed
qed

lemma in_order_iff:
  "m \<in> set (in_order f as) \<longleftrightarrow>
     (\<exists>i < length as. (\<forall>j < i. \<exists>v. get_coefficients (as ! j) = returns v) \<and> m \<in> set (f (as ! i)))"
proof (induction as)
  case Nil
  show ?case by simp
next
  case (Cons a as)
  show ?case
  proof (cases "\<exists>v. get_coefficients a = returns v")
    case False
    then have io: "in_order f (a # as) = f a"
      by (cases "get_coefficients a") (auto split: sum.splits)
    show ?thesis
    proof
      assume "m \<in> set (in_order f (a # as))"
      with io have "m \<in> set (f ((a # as) ! 0))" by simp
      then show "\<exists>i < length (a # as). (\<forall>j < i. \<exists>v. get_coefficients ((a # as) ! j) = returns v)
          \<and> m \<in> set (f ((a # as) ! i))"
        by (intro exI [of _ 0]) simp
    next
      assume "\<exists>i < length (a # as). (\<forall>j < i. \<exists>v. get_coefficients ((a # as) ! j) = returns v)
          \<and> m \<in> set (f ((a # as) ! i))"
      then obtain i where i: "\<forall>j < i. \<exists>v. get_coefficients ((a # as) ! j) = returns v"
          "m \<in> set (f ((a # as) ! i))"
        by blast
      have "i = 0"
      proof (rule ccontr)
        assume "i \<noteq> 0"
        with i(1) have "\<exists>v. get_coefficients ((a # as) ! 0) = returns v" by blast
        with False show False by simp
      qed
      with i io show "m \<in> set (in_order f (a # as))" by simp
    qed
  next
    case True
    then obtain v where v: "get_coefficients a = returns v" by blast
    then have io: "in_order f (a # as) = f a @ in_order f as" by simp
    show ?thesis
    proof
      assume "m \<in> set (in_order f (a # as))"
      with io consider "m \<in> set (f a)" | "m \<in> set (in_order f as)" by auto
      then show "\<exists>i < length (a # as). (\<forall>j < i. \<exists>v. get_coefficients ((a # as) ! j) = returns v)
          \<and> m \<in> set (f ((a # as) ! i))"
      proof cases
        case 1
        then show ?thesis by (intro exI [of _ 0]) simp
      next
        case 2
        with Cons.IH obtain i where i: "i < length as"
            "\<forall>j < i. \<exists>v. get_coefficients (as ! j) = returns v" "m \<in> set (f (as ! i))"
          by blast
        have "\<forall>j < Suc i. \<exists>w. get_coefficients ((a # as) ! j) = returns w"
        proof (intro allI impI)
          fix j assume "j < Suc i"
          with i(2) v show "\<exists>w. get_coefficients ((a # as) ! j) = returns w" by (cases j) auto
        qed
        with i show ?thesis by (intro exI [of _ "Suc i"]) simp
      qed
    next
      assume "\<exists>i < length (a # as). (\<forall>j < i. \<exists>v. get_coefficients ((a # as) ! j) = returns v)
          \<and> m \<in> set (f ((a # as) ! i))"
      then obtain i where i: "i < length (a # as)"
          "\<forall>j < i. \<exists>v. get_coefficients ((a # as) ! j) = returns v" "m \<in> set (f ((a # as) ! i))"
        by blast
      show "m \<in> set (in_order f (a # as))"
      proof (cases i)
        case 0
        with i io show ?thesis by simp
      next
        case (Suc i')
        with i have "i' < length as" "m \<in> set (f (as ! i'))" by simp_all
        moreover have "\<forall>j < i'. \<exists>w. get_coefficients (as ! j) = returns w"
        proof (intro allI impI)
          fix j assume "j < i'"
          with i(2) Suc have "\<exists>w. get_coefficients ((a # as) ! Suc j) = returns w" by blast
          then show "\<exists>w. get_coefficients (as ! j) = returns w" by simp
        qed
        ultimately have "m \<in> set (in_order f as)" using Cons.IH by blast
        with io show ?thesis by simp
      qed
    qed
  qed
qed

lemma first_raise_Cons:
  "first_raise (m # rs) = Some e \<longleftrightarrow> m = raises e \<or> (\<exists>v. m = returns v \<and> first_raise rs = Some e)"
  by (cases "(m # rs)" rule: first_raise.cases) auto

lemma bind_raises_iff:
  "bind m f = raises e \<longleftrightarrow> m = raises e \<or> (\<exists>v. m = returns v \<and> f v = raises e)"
proof (cases m)
  case None
  then show ?thesis by simp
next
  case (Some r)
  then show ?thesis by (cases r) auto
qed

lemma sum_loop_raises_iff: "sum_loop acc rs = raises e \<longleftrightarrow> first_raise rs = Some e"
  by (induction rs arbitrary: acc) (auto simp: first_raise_Cons bind_raises_iff)

lemma lift_map_result_not_unknown:
  "(\<And>x e. f x = Inl e \<Longrightarrow> e \<noteq> UnknownLinearOperator) \<Longrightarrow>
     lift (map_result f xs) \<noteq> raises UnknownLinearOperator"
  by (auto dest!: map_result_raises)

lemma transpose_cont_not_unknown:
  "(case coeffs of
      [(id', (rows, cols), _)] \<Rightarrow>
        returns [(id', (rows, cols), Matrix (transpose_block rows cols))]
    | _ \<Rightarrow> raises AssertionError) \<noteq> raises UnknownLinearOperator"
  by (auto split: list.split prod.split)

lemma unknown_step:
  "get_coefficients n = raises UnknownLinearOperator
     \<longleftrightarrow> type_op n \<notin> recognized
         \<or> first_raise (map get_coefficients (operands n)) = Some UnknownLinearOperator"
proof (cases "type_op n \<in> recognized")
  case False
  then show ?thesis by (simp add: get_coefficients_OTHER)
next
  case True
  then consider "type_op n = VARIABLE" | "type_op n = PARAM"
    | "type_op n \<in> {SCALAR_CONST, DENSE_CONST, SPARSE_CONST}"
    | "type_op n = SUM_OP" | "type_op n = NEG" | "type_op n = MUL"
    | "type_op n = SUM_ENTRIES" | "type_op n = INDEX" | "type_op n = TRANSPOSE"
    by (auto simp: recognized_def)
  then show ?thesis
  proof cases
    case 1
    with True show ?thesis
      by (auto simp: get_coefficients.simps operands_def split: payload.splits)
  next
    case 2
    with True show ?thesis
      by (auto simp: get_coefficients.simps operands_def split: payload.splits)
  next
    case 3
    with True show ?thesis
      by (auto simp: get_coefficients.simps operands_def split: payload.splits)
  next
    case 4
    with True show ?thesis
      by (simp add: get_coefficients_SUM_OP operands_def sum_loop_raises_iff)
  next
    case 5
    with True show ?thesis
      by (cases "args n")
         (auto simp: get_coefficients_NEG neg_coeffs.simps operands_def first_raise_Cons
                     bind_raises_iff)
  next
    case 6
    show ?thesis
    proof (cases "args n")
      case Nil
      with 6 True show ?thesis
        by (simp add: get_coefficients_MUL mul_coeffs.simps operands_def)
    next
      case (Cons a rest)
      show ?thesis
      proof (cases rest)
        case Nil
        with Cons 6 True show ?thesis
          by (auto simp: get_coefficients_MUL mul_coeffs.simps operands_def first_raise_Cons
                         bind_raises_iff)
      next
        case (Cons b rest')
        with \<open>args n = a # rest\<close> 6 True show ?thesis
          by (auto simp: get_coefficients_MUL mul_coeffs.simps operands_def first_raise_Cons
                         bind_raises_iff dest: mul_loop_raises)
      qed
    qed
  next
    case 7
    with True show ?thesis
      by (cases "args n")
         (auto simp: get_coefficients_SUM_ENTRIES sum_entries_coeffs.simps operands_def
                     first_raise_Cons bind_raises_iff
               dest!: map_result_raises dest: sum_entries_term_raises)
  next
    case 8
    with True show ?thesis
      by (cases "args n")
         (auto simp: get_coefficients_INDEX index_coeffs.simps operands_def
                     first_raise_Cons bind_raises_iff
               dest!: map_result_raises dest: index_term_raises)
  next
    case 9
    with True show ?thesis
      by (cases "args n")
         (auto simp: get_coefficients_TRANSPOSE transpose_coeffs.simps operands_def
                     first_raise_Cons bind_raises_iff transpose_cont_not_unknown)
  qed
qed

lemma unknown_reached:
  "get_coefficients n = raises UnknownLinearOperator
     \<longleftrightarrow> (\<exists>m \<in> set (reached n). type_op m \<notin> recognized)"
proof (induction n rule: measure_induct_rule [where f = size])
  case (less n)
  have IH: "get_coefficients a = raises UnknownLinearOperator
      \<longleftrightarrow> (\<exists>m \<in> set (reached a). type_op m \<notin> recognized)" if "a \<in> set (operands n)" for a
    using less.IH [of a] that size_operands by blast
  have "first_raise (map get_coefficients (operands n)) = Some UnknownLinearOperator
      \<longleftrightarrow> (\<exists>i < length (operands n).
            (\<forall>j < i. \<exists>v. get_coefficients (operands n ! j) = returns v)
            \<and> get_coefficients (operands n ! i) = raises UnknownLinearOperator)"
    by (simp add: first_raise_iff cong: conj_cong)
  also have "\<dots> \<longleftrightarrow> (\<exists>i < length (operands n).
            (\<forall>j < i. \<exists>v. get_coefficients (operands n ! j) = returns v)
            \<and> (\<exists>m \<in> set (reached (operands n ! i)). type_op m \<notin> recognized))"
    using IH by (metis nth_mem)
  also have "\<dots> \<longleftrightarrow> (\<exists>m \<in> set (in_order reached (operands n)). type_op m \<notin> recognized)"
    by (simp only: Bex_def in_order_iff) blast
  finally have below: "first_raise (map get_coefficients (operands n)) = Some UnknownLinearOperator
      \<longleftrightarrow> (\<exists>m \<in> set (in_order reached (operands n)). type_op m \<notin> recognized)" .
  have "set (reached n) = insert n (set (in_order reached (operands n)))"
    by (subst reached.simps) simp
  with below show ?case
    by (auto simp: unknown_step)
qed

text \<open>
  C9 (unsupported operator), as amended.  \<open>get_coefficients\<close> raises the unknown-operator
  error on a node if and only if the kind of that node, or of a node that its compilation
  reaches, is not one of the eleven recognized kinds.  The nodes reached are the node itself
  and, in the order of the calls, those reached from its operands (every child of a \<open>SUM\<close>,
  the first two of a \<open>PRODUCT\<close>, the first of a \<open>NEGATE\<close>, \<open>SUM_ENTRIES\<close>, \<open>INDEX\<close> or
  \<open>TRANSPOSE\<close>), none after an operand whose compilation does not return.  Said in one
  step: the error is raised exactly when the node is unrecognized or the first of its
  operands that does not return raises this error.  A node of a recognized kind is
  dispatched to the case of its kind.
\<close>

theorem unknown_operator_iff_reached:
  "(get_coefficients n = raises UnknownLinearOperator
      \<longleftrightarrow> (\<exists>m \<in> set (reached n). type_op m \<notin> recognized))
   \<and> (get_coefficients n = raises UnknownLinearOperator
      \<longleftrightarrow> type_op n \<notin> recognized
          \<or> first_raise (map get_coefficients (operands n)) = Some UnknownLinearOperator)
   \<and> (type_op n = SUM_OP \<longrightarrow> get_coefficients n = sum_coeffs n)
   \<and> (type_op n = NEG \<longrightarrow> get_coefficients n = neg_coeffs n)
   \<and> (type_op n = MUL \<longrightarrow> get_coefficients n = mul_coeffs n)
   \<and> (type_op n = SUM_ENTRIES \<longrightarrow> get_coefficients n = sum_entries_coeffs n)
   \<and> (type_op n = INDEX \<longrightarrow> get_coefficients n = index_coeffs n)
   \<and> (type_op n = TRANSPOSE \<longrightarrow> get_coefficients n = transpose_coeffs n)"
  using unknown_reached [of n] unknown_step [of n]
    get_coefficients_NEG [of n] get_coefficients_MUL [of n] get_coefficients_SUM_ENTRIES [of n]
    get_coefficients_INDEX [of n] get_coefficients_TRANSPOSE [of n]
  by (simp add: get_coefficients.simps)

text \<open>
  The claim as stated, with \<open>if and only if\<close> on the kind of the node alone, fails on a
  negation over an unrecognized node: the kind \<open>NEG\<close> is recognized and the call raises the
  error, which comes out of the compilation of the child.
\<close>

theorem unknown_operator_counterexample:
  "type_op (LinOp NEG (1, 1) [LinOp (OTHER ''eq'') (1, 1) [] NoData] NoData) \<in> recognized
   \<and> get_coefficients (LinOp NEG (1, 1) [LinOp (OTHER ''eq'') (1, 1) [] NoData] NoData)
       = raises UnknownLinearOperator"
  by (simp add: recognized_def get_coefficients.simps neg_coeffs.simps)

text \<open>
  The negation over an unrecognized node reaches that node and raises.  A sum of a
  variable, a negation without operand and an unrecognized node stops at the negation, whose
  \<open>args[0]\<close> raises an index error: the unrecognized node is not reached and the error of
  the sum is not the unknown-operator error.
\<close>

theorem unknown_operator_iff_reached_witness:
  "reached (LinOp NEG (1, 1) [LinOp (OTHER ''eq'') (1, 1) [] NoData] NoData)
     = [LinOp NEG (1, 1) [LinOp (OTHER ''eq'') (1, 1) [] NoData] NoData,
        LinOp (OTHER ''eq'') (1, 1) [] NoData]
   \<and> type_op (LinOp (OTHER ''eq'') (1, 1) [] NoData) \<notin> recognized
   \<and> get_coefficients (LinOp NEG (1, 1) [LinOp (OTHER ''eq'') (1, 1) [] NoData] NoData)
       = raises UnknownLinearOperator
   \<and> get_coefficients (LinOp NEG (1, 1) [LinOp (OTHER ''eq'') (1, 1) [] NoData] NoData)
       = neg_coeffs (LinOp NEG (1, 1) [LinOp (OTHER ''eq'') (1, 1) [] NoData] NoData)
   \<and> reached (LinOp SUM_OP (1, 1)
        [LinOp VARIABLE (1, 1) [] (VarId 0), LinOp NEG (1, 1) [] NoData,
         LinOp (OTHER ''eq'') (1, 1) [] NoData] NoData)
     = [LinOp SUM_OP (1, 1)
        [LinOp VARIABLE (1, 1) [] (VarId 0), LinOp NEG (1, 1) [] NoData,
         LinOp (OTHER ''eq'') (1, 1) [] NoData] NoData,
        LinOp VARIABLE (1, 1) [] (VarId 0), LinOp NEG (1, 1) [] NoData]
   \<and> get_coefficients (LinOp SUM_OP (1, 1)
        [LinOp VARIABLE (1, 1) [] (VarId 0), LinOp NEG (1, 1) [] NoData,
         LinOp (OTHER ''eq'') (1, 1) [] NoData] NoData)
       \<noteq> raises UnknownLinearOperator"
proof -
  have r1: "reached (LinOp NEG (1, 1) [LinOp (OTHER ''eq'') (1, 1) [] NoData] NoData)
     = [LinOp NEG (1, 1) [LinOp (OTHER ''eq'') (1, 1) [] NoData] NoData,
        LinOp (OTHER ''eq'') (1, 1) [] NoData]"
    by code_simp
  have r2: "reached (LinOp SUM_OP (1, 1)
        [LinOp VARIABLE (1, 1) [] (VarId 0), LinOp NEG (1, 1) [] NoData,
         LinOp (OTHER ''eq'') (1, 1) [] NoData] NoData)
     = [LinOp SUM_OP (1, 1)
        [LinOp VARIABLE (1, 1) [] (VarId 0), LinOp NEG (1, 1) [] NoData,
         LinOp (OTHER ''eq'') (1, 1) [] NoData] NoData,
        LinOp VARIABLE (1, 1) [] (VarId 0), LinOp NEG (1, 1) [] NoData]"
    by code_simp
  note neg = unknown_operator_iff_reached
    [of "LinOp NEG (1, 1) [LinOp (OTHER ''eq'') (1, 1) [] NoData] NoData"]
  note sum = unknown_operator_iff_reached
    [of "LinOp SUM_OP (1, 1)
        [LinOp VARIABLE (1, 1) [] (VarId 0), LinOp NEG (1, 1) [] NoData,
         LinOp (OTHER ''eq'') (1, 1) [] NoData] NoData"]
  have o: "type_op (LinOp (OTHER ''eq'') (1, 1) [] NoData) \<notin> recognized"
    by (simp add: recognized_def)
  have "\<exists>m \<in> set [LinOp NEG (1, 1) [LinOp (OTHER ''eq'') (1, 1) [] NoData] NoData,
        LinOp (OTHER ''eq'') (1, 1) [] NoData]. type_op m \<notin> recognized"
    using o by simp
  then have g1: "get_coefficients (LinOp NEG (1, 1) [LinOp (OTHER ''eq'') (1, 1) [] NoData] NoData)
       = raises UnknownLinearOperator"
    using neg [THEN conjunct1] unfolding r1 by blast
  have g2: "get_coefficients (LinOp NEG (1, 1) [LinOp (OTHER ''eq'') (1, 1) [] NoData] NoData)
       = neg_coeffs (LinOp NEG (1, 1) [LinOp (OTHER ''eq'') (1, 1) [] NoData] NoData)"
    using neg by simp
  have "\<not> (\<exists>m \<in> set [LinOp SUM_OP (1, 1)
        [LinOp VARIABLE (1, 1) [] (VarId 0), LinOp NEG (1, 1) [] NoData,
         LinOp (OTHER ''eq'') (1, 1) [] NoData] NoData,
        LinOp VARIABLE (1, 1) [] (VarId 0), LinOp NEG (1, 1) [] NoData]. type_op m \<notin> recognized)"
    by (simp add: recognized_def)
  then have g3: "get_coefficients (LinOp SUM_OP (1, 1)
        [LinOp VARIABLE (1, 1) [] (VarId 0), LinOp NEG (1, 1) [] NoData,
         LinOp (OTHER ''eq'') (1, 1) [] NoData] NoData)
       \<noteq> raises UnknownLinearOperator"
    using sum [THEN conjunct1] unfolding r2 by blast
  from r1 r2 o g1 g2 g3 show ?thesis by (intro conjI)
qed

subsection \<open>Transposition\<close>

lemma transpose_coeffs_single:
  assumes "type_op n = TRANSPOSE" and "args n = a # rest"
    and "get_coefficients a = returns [(i, (r, c), b)]"
  shows "get_coefficients n = returns [(i, (r, c), Matrix (transpose_block r c))]"
  using assms by (simp add: get_coefficients_TRANSPOSE transpose_coeffs.simps)

text \<open>
  C10 (the transpose discards the child's block).  When the child of a \<open>TRANSPOSE\<close> node
  compiles to the single triple \<open>(i, (r, c), b)\<close>, the node compiles to \<open>i\<close>, \<open>(r, c)\<close> and
  the permutation block built from \<open>r\<close> and \<open>c\<close> alone; two children that agree on \<open>i\<close>,
  \<open>r\<close> and \<open>c\<close> but not on the block give the same result.
\<close>

theorem transpose_coeffs_ignores_block:
  assumes "type_op n = TRANSPOSE" and "args n = a # rest"
    and "get_coefficients a = returns [(i, (r, c), b)]"
    and "type_op n' = TRANSPOSE" and "args n' = a' # rest'"
    and "get_coefficients a' = returns [(i, (r, c), b')]"
  shows "get_coefficients n = returns [(i, (r, c), Matrix (transpose_block r c))]
       \<and> get_coefficients n' = get_coefficients n"
  using assms by (simp add: transpose_coeffs_single)

text \<open>A variable and its negation have different blocks and the same transpose.\<close>

theorem transpose_coeffs_ignores_block_witness:
  "get_coefficients (LinOp VARIABLE (2, 2) [] (VarId 0))
     = returns [(Id 0, (2, 2), Matrix [[1, 0, 0, 0], [0, 1, 0, 0], [0, 0, 1, 0], [0, 0, 0, 1]])]
   \<and> get_coefficients (LinOp NEG (2, 2) [LinOp VARIABLE (2, 2) [] (VarId 0)] NoData)
     = returns [(Id 0, (2, 2), Matrix [[- 1, 0, 0, 0], [0, - 1, 0, 0], [0, 0, - 1, 0], [0, 0, 0, - 1]])]
   \<and> get_coefficients (LinOp TRANSPOSE (2, 2) [LinOp NEG (2, 2) [LinOp VARIABLE (2, 2) [] (VarId 0)] NoData] NoData)
     = get_coefficients (LinOp TRANSPOSE (2, 2) [LinOp VARIABLE (2, 2) [] (VarId 0)] NoData)"
proof -
  have v: "get_coefficients (LinOp VARIABLE (2, 2) [] (VarId 0))
     = returns [(Id 0, (2, 2), Matrix [[1, 0, 0, 0], [0, 1, 0, 0], [0, 0, 1, 0], [0, 0, 0, 1]])]"
    by code_simp
  have nv: "get_coefficients (LinOp NEG (2, 2) [LinOp VARIABLE (2, 2) [] (VarId 0)] NoData)
     = returns [(Id 0, (2, 2), Matrix [[- 1, 0, 0, 0], [0, - 1, 0, 0], [0, 0, - 1, 0], [0, 0, 0, - 1]])]"
    by code_simp
  show ?thesis
    using v nv transpose_coeffs_ignores_block
      [of "LinOp TRANSPOSE (2, 2) [LinOp VARIABLE (2, 2) [] (VarId 0)] NoData"
          "LinOp VARIABLE (2, 2) [] (VarId 0)" "[]" "Id 0" 2 2 _
          "LinOp TRANSPOSE (2, 2) [LinOp NEG (2, 2) [LinOp VARIABLE (2, 2) [] (VarId 0)] NoData] NoData"
          "LinOp NEG (2, 2) [LinOp VARIABLE (2, 2) [] (VarId 0)] NoData" "[]", OF _ _ v _ _ nv]
    by simp
qed

text \<open>The entries of the transpose block.\<close>

definition positions :: "nat \<Rightarrow> nat \<Rightarrow> (nat \<times> nat) list" where
  "positions rows cols =
     concat (map (\<lambda>row. map (\<lambda>col. (row * cols + col, col * rows + row)) [0..<cols]) [0..<rows])"

lemma length_set_entry [simp]: "length (set_entry m i j v) = length m"
  by (simp add: set_entry_def)

lemma length_row_set_entry [simp]: "length (set_entry m i j v ! k) = length (m ! k)"
  by (cases "i < length m") (simp_all add: set_entry_def nth_list_update list_update_beyond)

lemma nth_set_entry:
  "k < length m \<Longrightarrow> l < length (m ! k) \<Longrightarrow>
     set_entry m i j v ! k ! l = (if k = i \<and> l = j then v else m ! k ! l)"
  by (cases "i < length m") (auto simp: set_entry_def nth_list_update list_update_beyond)

lemma fold_concat_lists: "fold f (concat xss) = fold (fold f) xss"
  by (induction xss) simp_all

lemma transpose_block_positions:
  "transpose_block rows cols =
     fold (\<lambda>p m. set_entry m (fst p) (snd p) 1) (positions rows cols) (zeros (rows * cols) (rows * cols))"
  by (simp add: transpose_block_def positions_def fold_concat_lists fold_map comp_def)

lemma fold_set_entry_dims:
  "length (fold (\<lambda>p m. set_entry m (fst p) (snd p) v) ps m) = length m
   \<and> length (fold (\<lambda>p m. set_entry m (fst p) (snd p) v) ps m ! k) = length (m ! k)"
  by (induction ps arbitrary: m) simp_all

lemma fold_set_entry_nth:
  "k < length m \<Longrightarrow> l < length (m ! k) \<Longrightarrow>
     fold (\<lambda>p m. set_entry m (fst p) (snd p) v) ps m ! k ! l
       = (if (k, l) \<in> set ps then v else m ! k ! l)"
proof (induction ps arbitrary: m)
  case Nil
  then show ?case by simp
next
  case (Cons p ps)
  then show ?case by (cases p) (auto simp: nth_set_entry)
qed

lemma in_positions:
  "(k, l) \<in> set (positions rows cols)
     \<longleftrightarrow> (\<exists>row < rows. \<exists>col < cols. k = row * cols + col \<and> l = col * rows + row)"
proof
  assume "(k, l) \<in> set (positions rows cols)"
  then show "\<exists>row < rows. \<exists>col < cols. k = row * cols + col \<and> l = col * rows + row"
    by (auto simp: positions_def)
next
  assume "\<exists>row < rows. \<exists>col < cols. k = row * cols + col \<and> l = col * rows + row"
  then obtain row col where "row < rows" "col < cols" "k = row * cols + col" "l = col * rows + row"
    by blast
  then have "(k, l) \<in> (\<lambda>col. (row * cols + col, col * rows + row)) ` {0..<cols}" "row \<in> {0..<rows}"
    by auto
  then show "(k, l) \<in> set (positions rows cols)"
    unfolding positions_def by (simp del: atLeastLessThan_iff) blast
qed

lemma length_transpose_block: "length (transpose_block rows cols) = rows * cols"
  by (simp add: transpose_block_positions fold_set_entry_dims zeros_def)

lemma length_row_transpose_block:
  "k < rows * cols \<Longrightarrow> length (transpose_block rows cols ! k) = rows * cols"
  by (simp add: transpose_block_positions fold_set_entry_dims zeros_def)

lemma nth_transpose_block:
  assumes "k < rows * cols" and "l < rows * cols"
  shows "transpose_block rows cols ! k ! l
       = (if \<exists>row < rows. \<exists>col < cols. k = row * cols + col \<and> l = col * rows + row then 1 else 0)"
proof -
  have "transpose_block rows cols ! k ! l = (if (k, l) \<in> set (positions rows cols) then 1 else 0)"
    using assms by (simp add: transpose_block_positions fold_set_entry_nth zeros_def)
  then show ?thesis by (simp only: in_positions)
qed

lemma position_in_range:
  assumes "row < rows" and "col < (cols :: nat)"
  shows "row * cols + col < rows * cols"
proof -
  have "row * cols + col < row * cols + cols" using assms by simp
  also have "\<dots> = Suc row * cols" by simp
  also have "\<dots> \<le> rows * cols" using assms by (intro mult_le_mono1) simp
  finally show ?thesis .
qed

lemma length_eye [simp]: "length (eye n) = n"
  by (simp add: eye_def)

lemma nth_eye: "k < n \<Longrightarrow> eye n ! k = map (\<lambda>j. if k = j then 1 else 0) [0..<n]"
  by (simp add: eye_def)

lemma nth_nth_eye: "k < n \<Longrightarrow> l < n \<Longrightarrow> eye n ! k ! l = (if k = l then 1 else 0)"
  by (simp add: nth_eye)

lemma transpose_block_thin:
  assumes "rows \<le> 1 \<or> cols \<le> 1"
  shows "transpose_block rows cols = eye (rows * cols)"
proof (rule nth_equalityI)
  show "length (transpose_block rows cols) = length (eye (rows * cols))"
    by (simp add: length_transpose_block)
next
  fix k assume "k < length (transpose_block rows cols)"
  then have k: "k < rows * cols" by (simp add: length_transpose_block)
  show "transpose_block rows cols ! k = eye (rows * cols) ! k"
  proof (rule nth_equalityI)
    show "length (transpose_block rows cols ! k) = length (eye (rows * cols) ! k)"
      using k by (simp add: length_row_transpose_block nth_eye)
  next
    fix l assume "l < length (transpose_block rows cols ! k)"
    then have l: "l < rows * cols" using k by (simp add: length_row_transpose_block)
    have "(\<exists>row < rows. \<exists>col < cols. k = row * cols + col \<and> l = col * rows + row) \<longleftrightarrow> k = l"
    proof (cases "rows \<le> 1")
      case True
      with k have "rows = 1" by (cases rows) auto
      with k show ?thesis by auto
    next
      case False
      with assms k have "cols = 1" by (cases cols) auto
      with k show ?thesis by auto
    qed
    with k l show "transpose_block rows cols ! k ! l = eye (rows * cols) ! k ! l"
      by (simp add: nth_transpose_block nth_eye)
  qed
qed

lemma transpose_block_thick:
  assumes "2 \<le> rows" and "2 \<le> cols"
  shows "transpose_block rows cols \<noteq> eye (rows * cols)"
proof -
  have "2 * 2 \<le> rows * cols" using assms by (rule mult_le_mono)
  then have k: "1 < rows * cols" by simp
  have "rows * 1 < rows * cols" using assms by (intro mult_strict_left_mono) simp_all
  then have l: "rows < rows * cols" by simp
  have "\<exists>row < rows. \<exists>col < cols. 1 = row * cols + col \<and> rows = col * rows + row"
    using assms by (intro exI [of _ 0] exI [of _ 1]) simp
  with k l have "transpose_block rows cols ! 1 ! rows = 1"
    by (simp only: nth_transpose_block if_True)
  moreover have "eye (rows * cols) ! 1 ! rows = (if 1 = rows then 1 else 0)"
    using k l by (rule nth_nth_eye)
  moreover have "1 \<noteq> rows" using assms by simp
  ultimately show ?thesis by auto
qed

text \<open>
  C2 (the transpose block), as the code has it.  When the child of a \<open>TRANSPOSE\<close> node
  compiles to exactly one triple of shape \<open>(rows, cols)\<close>, the node returns a block \<open>P\<close> of
  \<open>rows * cols\<close> rows and as many columns, whose entry at
  \<open>(row * cols + col, col * rows + row)\<close> is 1 for every \<open>row < rows\<close> and \<open>col < cols\<close>,
  and 0 everywhere else.  (The row index is the position in the transpose, the column index
  the position in the argument, both column-major.)
\<close>

theorem transpose_block_entries:
  assumes "type_op n = TRANSPOSE" and "args n = a # rest"
    and "get_coefficients a = returns [(i, (rows, cols), b)]"
  shows "\<exists>P. get_coefficients n = returns [(i, (rows, cols), Matrix P)]
     \<and> length P = rows * cols
     \<and> (\<forall>k < rows * cols. length (P ! k) = rows * cols)
     \<and> (\<forall>row < rows. \<forall>col < cols. P ! (row * cols + col) ! (col * rows + row) = 1)
     \<and> (\<forall>k < rows * cols. \<forall>l < rows * cols.
          \<not> (\<exists>row < rows. \<exists>col < cols. k = row * cols + col \<and> l = col * rows + row)
            \<longrightarrow> P ! k ! l = 0)"
proof (intro exI conjI allI impI)
  show "get_coefficients n = returns [(i, (rows, cols), Matrix (transpose_block rows cols))]"
    using assms by (rule transpose_coeffs_single)
  show "length (transpose_block rows cols) = rows * cols"
    by (rule length_transpose_block)
next
  fix k assume "k < rows * cols"
  then show "length (transpose_block rows cols ! k) = rows * cols"
    by (rule length_row_transpose_block)
next
  fix row col assume rc: "row < rows" "col < cols"
  then have "row * cols + col < rows * cols" "col * rows + row < rows * cols"
    using position_in_range [of row rows col cols] position_in_range [of col cols row rows]
    by (simp_all add: mult.commute)
  moreover from rc have "\<exists>row' < rows. \<exists>col' < cols.
      row * cols + col = row' * cols + col' \<and> col * rows + row = col' * rows + row'"
    by blast
  ultimately show "transpose_block rows cols ! (row * cols + col) ! (col * rows + row) = 1"
    by (simp only: nth_transpose_block if_True)
next
  fix k l
  assume "k < rows * cols" "l < rows * cols"
    and "\<not> (\<exists>row < rows. \<exists>col < cols. k = row * cols + col \<and> l = col * rows + row)"
  then show "transpose_block rows cols ! k ! l = 0"
    by (simp only: nth_transpose_block if_False)
qed

text \<open>
  With the indices the other way round the statement fails: for a 2 by 3 variable and
  \<open>row = 0\<close>, \<open>col = 1\<close> the entry at \<open>(col * rows + row, row * cols + col) = (2, 1)\<close> is 0.
\<close>

theorem transpose_block_entries_counterexample:
  "get_coefficients (LinOp TRANSPOSE (3, 2) [LinOp VARIABLE (2, 3) [] (VarId 0)] NoData)
     = returns [(Id 0, (2, 3), Matrix
         [[1, 0, 0, 0, 0, 0], [0, 0, 1, 0, 0, 0], [0, 0, 0, 0, 1, 0],
          [0, 1, 0, 0, 0, 0], [0, 0, 0, 1, 0, 0], [0, 0, 0, 0, 0, 1]])]
   \<and> [[1, 0, 0, 0, 0, 0], [0, 0, 1, 0, 0, 0], [0, 0, 0, 0, 1, 0],
       [0, 1, 0, 0, 0, 0], [0, 0, 0, 1, 0, 0], [0, 0, 0, 0, 0, 1 :: real]]
        ! (1 * 2 + 0) ! (0 * 3 + 1) = 0"
  by code_simp

text \<open>
  The 2 by 3 variable: 6 rows of 6 entries, a 1 at \<open>(1, 2)\<close> and a 0 at \<open>(2, 1)\<close>.
\<close>

theorem transpose_block_entries_witness:
  "\<exists>P. get_coefficients (LinOp TRANSPOSE (3, 2) [LinOp VARIABLE (2, 3) [] (VarId 0)] NoData)
         = returns [(Id 0, (2, 3), Matrix P)]
     \<and> length P = 6 \<and> length (P ! 1) = 6 \<and> P ! (0 * 3 + 1) ! (1 * 2 + 0) = 1 \<and> P ! 2 ! 1 = 0"
proof -
  have v: "get_coefficients (LinOp VARIABLE (2, 3) [] (VarId 0))
      = returns [(Id 0, (2, 3), Matrix (eye (2 * 3)))]"
    by (simp add: get_coefficients_VARIABLE)
  have no: "\<not> (\<exists>row < 2. \<exists>col < 3. (2 :: nat) = row * 3 + col \<and> (1 :: nat) = col * 2 + row)"
    by (auto simp: less_Suc_eq numeral_2_eq_2 numeral_3_eq_3)
  from transpose_block_entries
    [of "LinOp TRANSPOSE (3, 2) [LinOp VARIABLE (2, 3) [] (VarId 0)] NoData"
        "LinOp VARIABLE (2, 3) [] (VarId 0)" "[]" "Id 0" 2 3, OF _ _ v]
  obtain P where P: "get_coefficients (LinOp TRANSPOSE (3, 2) [LinOp VARIABLE (2, 3) [] (VarId 0)] NoData)
         = returns [(Id 0, (2, 3), Matrix P)]"
     "length P = 2 * 3" "\<forall>k < 2 * 3. length (P ! k) = 2 * 3"
     "\<forall>row < 2. \<forall>col < 3. P ! (row * 3 + col) ! (col * 2 + row) = 1"
     "\<forall>k < 2 * 3. \<forall>l < 2 * 3.
          \<not> (\<exists>row < 2. \<exists>col < 3. k = row * 3 + col \<and> l = col * 2 + row) \<longrightarrow> P ! k ! l = 0"
    by auto
  from P(3) have "length (P ! 1) = 6" by simp
  moreover from P(4) [rule_format, of 0 1] have "P ! (0 * 3 + 1) ! (1 * 2 + 0) = 1" by simp
  moreover from P(5) no have "P ! 2 ! 1 = 0" by simp
  ultimately show ?thesis using P(1, 2) by auto
qed

text \<open>
  C3 (transposing twice), as the code has it.  For a bare variable \<open>v\<close> of shape
  \<open>(r, c)\<close>, compiling \<open>TRANSPOSE(TRANSPOSE(v))\<close> yields a single triple with the identifier
  and shape of \<open>v\<close> whose block is the transpose block of \<open>(r, c)\<close>, the same as compiling
  \<open>TRANSPOSE(v)\<close>: the outer node discards the block of the inner one.  The result equals
  the compilation of \<open>v\<close> itself, the identity block, exactly when \<open>r \<le> 1\<close> or \<open>c \<le> 1\<close>.
\<close>

theorem transpose_twice:
  assumes "type_op v = VARIABLE" and "data v = VarId i" and "size_op v = (r, c)"
    and "type_op t1 = TRANSPOSE" and "args t1 = v # rest1"
    and "type_op t2 = TRANSPOSE" and "args t2 = t1 # rest2"
  shows "get_coefficients t2 = returns [(Id i, (r, c), Matrix (transpose_block r c))]
     \<and> get_coefficients t2 = get_coefficients t1
     \<and> (get_coefficients t2 = get_coefficients v \<longleftrightarrow> r \<le> 1 \<or> c \<le> 1)"
proof -
  have v: "get_coefficients v = returns [(Id i, (r, c), Matrix (eye (r * c)))]"
    using assms(1-3) by (rule get_coefficients_VARIABLE)
  have t1: "get_coefficients t1 = returns [(Id i, (r, c), Matrix (transpose_block r c))]"
    using assms(4, 5) v by (rule transpose_coeffs_single)
  have t2: "get_coefficients t2 = returns [(Id i, (r, c), Matrix (transpose_block r c))]"
    using assms(6, 7) t1 by (rule transpose_coeffs_single)
  have "transpose_block r c = eye (r * c) \<longleftrightarrow> r \<le> 1 \<or> c \<le> 1"
  proof (cases "r \<le> 1 \<or> c \<le> 1")
    case True
    then show ?thesis by (simp add: transpose_block_thin)
  next
    case False
    then have "2 \<le> r" "2 \<le> c" by simp_all
    then have "transpose_block r c \<noteq> eye (r * c)" by (rule transpose_block_thick)
    with False show ?thesis by simp
  qed
  with v t1 t2 show ?thesis by simp
qed

text \<open>
  For a 2 by 2 variable the block of the double transpose swaps the two middle positions;
  it is not the identity that the variable compiles to.
\<close>

theorem transpose_twice_counterexample:
  "get_coefficients (LinOp TRANSPOSE (2, 2)
       [LinOp TRANSPOSE (2, 2) [LinOp VARIABLE (2, 2) [] (VarId 0)] NoData] NoData)
     = returns [(Id 0, (2, 2), Matrix [[1, 0, 0, 0], [0, 0, 1, 0], [0, 1, 0, 0], [0, 0, 0, 1]])]
   \<and> get_coefficients (LinOp VARIABLE (2, 2) [] (VarId 0))
     = returns [(Id 0, (2, 2), Matrix [[1, 0, 0, 0], [0, 1, 0, 0], [0, 0, 1, 0], [0, 0, 0, 1]])]
   \<and> eye (2 * 2) = [[1, 0, 0, 0], [0, 1, 0, 0], [0, 0, 1, 0], [0, 0, 0, 1]]"
  by code_simp

text \<open>
  A column variable of three rows: both transposes compile to the 3 by 3 identity.
\<close>

theorem transpose_twice_witness:
  "get_coefficients (LinOp TRANSPOSE (3, 1)
       [LinOp TRANSPOSE (1, 3) [LinOp VARIABLE (3, 1) [] (VarId 0)] NoData] NoData)
     = returns [(Id 0, (3, 1), Matrix (transpose_block 3 1))]
   \<and> get_coefficients (LinOp TRANSPOSE (3, 1)
       [LinOp TRANSPOSE (1, 3) [LinOp VARIABLE (3, 1) [] (VarId 0)] NoData] NoData)
     = get_coefficients (LinOp VARIABLE (3, 1) [] (VarId 0))
   \<and> get_coefficients (LinOp VARIABLE (3, 1) [] (VarId 0))
     = returns [(Id 0, (3, 1), Matrix [[1, 0, 0], [0, 1, 0], [0, 0, 1]])]"
proof -
  have "get_coefficients (LinOp VARIABLE (3, 1) [] (VarId 0))
     = returns [(Id 0, (3, 1), Matrix [[1, 0, 0], [0, 1, 0], [0, 0, 1]])]"
    by code_simp
  moreover have "transpose_block 3 1 = [[1, 0, 0], [0, 1, 0], [0, 0, 1]]"
    by code_simp
  ultimately show ?thesis
    using transpose_twice [of "LinOp VARIABLE (3, 1) [] (VarId 0)" 0 3 1
      "LinOp TRANSPOSE (1, 3) [LinOp VARIABLE (3, 1) [] (VarId 0)] NoData" "[]"
      "LinOp TRANSPOSE (3, 1)
       [LinOp TRANSPOSE (1, 3) [LinOp VARIABLE (3, 1) [] (VarId 0)] NoData] NoData" "[]"]
    by simp
qed

subsection \<open>The blocks of variable triples are matrices\<close>

fun matrix_coeff :: "coeff \<Rightarrow> bool" where
  \<comment> \<open>the block of a variable triple is a matrix, not a number\<close>
  "matrix_coeff (i, s, b) = (i = CONSTANT_ID \<or> (\<exists>m. b = Matrix m))"

lemma mul_block_matrix: "mul_block a (Matrix m) = Inr p \<Longrightarrow> \<exists>m'. p = Matrix m'"
  by (cases a) (auto split: if_splits)

lemma mul_term_matrix:
  assumes "mul_term cols lh rh = Inr t" and "matrix_coeff rh"
  shows "matrix_coeff t"
proof -
  obtain li ls lb where lh: "lh = (li, ls, lb)" by (cases lh)
  obtain ri rs rb where rh: "rh = (ri, rs, rb)" by (cases rh)
  show ?thesis
  proof (cases "ri = CONSTANT_ID")
    case True
    with assms(1) lh rh show ?thesis by (auto split: sum.splits)
  next
    case False
    with assms(2) rh obtain m where "rb = Matrix m" by auto
    with assms(1) lh rh show ?thesis
      by (auto split: sum.splits if_splits dest: mul_block_matrix)
  qed
qed

lemma mul_inner_matrix:
  "mul_inner cols lh rhs new = Inr cs \<Longrightarrow> list_all matrix_coeff rhs \<Longrightarrow>
     list_all matrix_coeff new \<Longrightarrow> list_all matrix_coeff cs"
proof (induction rhs arbitrary: new)
  case Nil
  then show ?case by simp
next
  case (Cons rh rhs)
  then show ?case
    by (auto split: sum.splits dest: mul_term_matrix)
qed

lemma mul_inner_aliased_matrix:
  assumes "mul_inner_aliased cols lh i new = Some r"
  shows "list_all matrix_coeff new \<Longrightarrow> r = Inr cs \<Longrightarrow> list_all matrix_coeff cs"
proof -
  have "list_all matrix_coeff new \<longrightarrow> (\<forall>cs. r = Inr cs \<longrightarrow> list_all matrix_coeff cs)"
  proof (rule mul_inner_aliased.raw_induct
      [where P = "\<lambda>cols lh i new r.
         list_all matrix_coeff new \<longrightarrow> (\<forall>cs. r = Inr cs \<longrightarrow> list_all matrix_coeff cs)", OF _ assms])
    fix f cols lh i new r
    assume IH: "\<And>cols lh i new r. f cols lh i new = Some r \<Longrightarrow>
          list_all matrix_coeff new \<longrightarrow> (\<forall>cs. r = Inr cs \<longrightarrow> list_all matrix_coeff cs)"
      and step: "(if i < length new
           then case mul_term cols lh (new ! i) of Inl e \<Rightarrow> raises e
                | Inr t \<Rightarrow> f cols lh (Suc i) (new @ [t])
           else returns new) = Some r"
    show "list_all matrix_coeff new \<longrightarrow> (\<forall>cs. r = Inr cs \<longrightarrow> list_all matrix_coeff cs)"
    proof (cases "i < length new")
      case False
      with step show ?thesis by auto
    next
      case True
      show ?thesis
      proof (cases "mul_term cols lh (new ! i)")
        case (Inl e)
        with True step show ?thesis by auto
      next
        case (Inr t)
        with True step have f: "f cols lh (Suc i) (new @ [t]) = Some r" by simp
        show ?thesis
        proof (intro impI)
          assume new: "list_all matrix_coeff new"
          with True have "matrix_coeff (new ! i)" by (simp add: list_all_length)
          with Inr have "matrix_coeff t" by (rule mul_term_matrix)
          with new have "list_all matrix_coeff (new @ [t])" by simp
          with IH [OF f] show "\<forall>cs. r = Inr cs \<longrightarrow> list_all matrix_coeff cs" by simp
        qed
      qed
    qed
  qed
  then show "list_all matrix_coeff new \<Longrightarrow> r = Inr cs \<Longrightarrow> list_all matrix_coeff cs" by simp
qed

lemma bind_returns:
  assumes "bind m f = returns w"
  shows "\<exists>v. m = returns v \<and> f v = returns w"
proof (cases m)
  case None
  with assms show ?thesis by simp
next
  case (Some r)
  with assms show ?thesis by (cases r) auto
qed

lemma mul_outer_aliased_matrix:
  "mul_outer_aliased cols lhs new = returns cs \<Longrightarrow> list_all matrix_coeff new \<Longrightarrow>
     list_all matrix_coeff cs"
proof (induction lhs arbitrary: new)
  case Nil
  then show ?case by simp
next
  case (Cons lh lhs)
  from Cons.prems(1) obtain v where v: "mul_inner_aliased cols lh 0 new = returns v"
      "mul_outer_aliased cols lhs v = returns cs"
    by (auto dest: bind_returns)
  from v(1) Cons.prems(2) have "list_all matrix_coeff v"
    by (rule mul_inner_aliased_matrix) simp
  with v(2) show ?case by (rule Cons.IH)
qed

lemma mul_loop_matrix:
  assumes "mul_loop cols lhs rhs = returns cs" and "list_all matrix_coeff rhs"
  shows "list_all matrix_coeff cs"
proof (cases lhs)
  case Nil
  with assms show ?thesis by (simp add: mul_loop_def)
next
  case (Cons lh rest)
  with assms(1) obtain v where v: "mul_inner cols lh rhs [] = Inr v"
      "mul_outer_aliased cols rest v = returns cs"
    by (auto simp: mul_loop_def dest: bind_returns)
  from v(1) assms(2) have "list_all matrix_coeff v" by (rule mul_inner_matrix) simp
  with v(2) show ?thesis by (rule mul_outer_aliased_matrix)
qed

lemma sum_loop_matrix:
  "sum_loop acc rs = returns cs \<Longrightarrow> list_all matrix_coeff acc \<Longrightarrow>
     (\<And>r v. r \<in> set rs \<Longrightarrow> r = returns v \<Longrightarrow> list_all matrix_coeff v) \<Longrightarrow>
     list_all matrix_coeff cs"
proof (induction rs arbitrary: acc)
  case Nil
  then show ?case by simp
next
  case (Cons r rs)
  from Cons.prems(1) obtain v where v: "r = returns v" "sum_loop (acc @ v) rs = returns cs"
    by (auto dest: bind_returns)
  with Cons.prems have "list_all matrix_coeff (acc @ v)" by simp
  with v(2) show ?case using Cons.prems(3) by (intro Cons.IH) auto
qed

lemma map_result_all:
  "map_result f xs = Inr ys \<Longrightarrow> \<forall>x \<in> set xs. \<forall>y. f x = Inr y \<longrightarrow> P y \<Longrightarrow> list_all P ys"
proof (induction xs arbitrary: ys)
  case Nil
  then show ?case by simp
next
  case (Cons x xs)
  from Cons.prems(1) obtain y ys' where y: "f x = Inr y" "map_result f xs = Inr ys'" "ys = y # ys'"
    by (auto split: sum.splits)
  from y(1) Cons.prems(2) have "P y" by simp
  moreover from y(2) Cons.prems(2) have "list_all P ys'" by (intro Cons.IH) simp_all
  ultimately show ?case using y(3) by simp
qed

lemma sum_entries_term_matrix: "sum_entries_term t = Inr t' \<Longrightarrow> matrix_coeff t'"
  by (cases t rule: sum_entries_term.cases)
     (auto split: if_splits sum.splits elim: sum_axis0.elims)

lemma index_matrix: "index (Matrix m) k = Inr b \<Longrightarrow> \<exists>m'. b = Matrix m'"
  by (cases k) (auto split: sum.splits)

lemma index_rows_matrix: "index_rows k rows cs (Matrix m) = Inr b \<Longrightarrow> \<exists>m'. b = Matrix m'"
proof (induction cs arbitrary: m)
  case Nil
  then show ?case by auto
next
  case (Cons c cs)
  then show ?case by (auto split: sum.splits dest!: index_matrix)
qed

lemma index_term_matrix:
  assumes "index_term n a t = Inr t'" and "matrix_coeff t"
  shows "matrix_coeff t'"
proof -
  obtain i s b where t: "t = (i, s, b)" by (cases t)
  show ?thesis
  proof (cases "i = CONSTANT_ID")
    case True
    with assms(1) t show ?thesis by (auto split: payload.splits sum.splits)
  next
    case False
    with assms(2) t obtain m where "b = Matrix m" by auto
    with assms(1) t False show ?thesis
      by (auto split: payload.splits sum.splits prod.splits if_splits
               dest!: index_matrix index_rows_matrix)
  qed
qed

lemma neg_term_matrix: "matrix_coeff t \<Longrightarrow> matrix_coeff (neg_term t)"
  by (cases t rule: neg_term.cases) auto

lemma get_coefficients_matrix:
  "get_coefficients n = returns cs \<Longrightarrow> list_all matrix_coeff cs"
proof (induction n arbitrary: cs rule: measure_induct_rule [where f = size])
  case (less n)
  have IH: "\<And>a v. a \<in> set (args n) \<Longrightarrow> get_coefficients a = returns v \<Longrightarrow> list_all matrix_coeff v"
    using less.IH size_args by blast
  show ?case
  proof (cases "type_op n \<in> recognized")
    case False
    with less.prems show ?thesis by (simp add: get_coefficients_OTHER)
  next
    case True
    then consider "type_op n = VARIABLE" | "type_op n = PARAM"
      | "type_op n \<in> {SCALAR_CONST, DENSE_CONST, SPARSE_CONST}"
      | "type_op n = SUM_OP" | "type_op n = NEG" | "type_op n = MUL"
      | "type_op n = SUM_ENTRIES" | "type_op n = INDEX" | "type_op n = TRANSPOSE"
      by (auto simp: recognized_def)
    then show ?thesis
    proof cases
      case 1
      with less.prems show ?thesis
        by (auto simp: get_coefficients.simps split: payload.splits)
    next
      case 2
      with less.prems show ?thesis
        by (auto simp: get_coefficients.simps split: payload.splits)
    next
      case 3
      with less.prems show ?thesis
        by (auto simp: get_coefficients.simps split: payload.splits)
    next
      case 4
      with less.prems have "sum_loop [] (map get_coefficients (args n)) = returns cs"
        by (simp add: get_coefficients_SUM_OP)
      then show ?thesis
      proof (rule sum_loop_matrix)
        show "list_all matrix_coeff []" by simp
      next
        fix r v assume "r \<in> set (map get_coefficients (args n))" "r = returns v"
        then obtain a where "a \<in> set (args n)" "get_coefficients a = returns v" by auto
        then show "list_all matrix_coeff v" by (rule IH)
      qed
    next
      case 5
      with less.prems obtain a rest v where "args n = a # rest" "get_coefficients a = returns v"
          "cs = map neg_term v"
        by (auto simp: get_coefficients_NEG neg_coeffs.simps split: list.splits dest!: bind_returns)
      with IH [of a v] show ?thesis
        by (auto simp: list_all_iff neg_term_matrix)
    next
      case 6
      with less.prems obtain a0 a1 rest lh rh where a: "args n = a0 # a1 # rest"
          "get_coefficients a1 = returns rh" "mul_loop (snd (size_op n)) lh rh = returns cs"
        by (auto simp: get_coefficients_MUL mul_coeffs.simps split: list.splits dest!: bind_returns)
      from a(1, 2) IH [of a1 rh] have "list_all matrix_coeff rh" by simp
      with a(3) show ?thesis by (rule mul_loop_matrix)
    next
      case 7
      with less.prems obtain a rest v where "map_result sum_entries_term v = Inr cs"
        by (auto simp: get_coefficients_SUM_ENTRIES sum_entries_coeffs.simps split: list.splits
                 dest!: bind_returns)
      then show ?thesis
        by (rule map_result_all) (auto dest: sum_entries_term_matrix)
    next
      case 8
      with less.prems obtain a rest v where a: "args n = a # rest" "get_coefficients a = returns v"
          "map_result (index_term n a) v = Inr cs"
        by (auto simp: get_coefficients_INDEX index_coeffs.simps split: list.splits
                 dest!: bind_returns)
      from a(1, 2) IH [of a v] have "list_all matrix_coeff v" by simp
      with a(3) show ?thesis
        by (intro map_result_all [OF a(3)]) (auto simp: list_all_iff dest: index_term_matrix)
    next
      case 9
      with less.prems show ?thesis
        by (auto simp: get_coefficients_TRANSPOSE transpose_coeffs.simps
                 split: list.splits prod.splits dest!: bind_returns)
    qed
  qed
qed

subsection \<open>Sums of entries\<close>

lemma map_result_total:
  "(\<And>x. x \<in> set xs \<Longrightarrow> f x = Inr (g x)) \<Longrightarrow> map_result f xs = Inr (map g xs)"
  by (induction xs) simp_all

text \<open>
  C5 (SUM\_ENTRIES).  When the child of a \<open>SUM_ENTRIES\<close> node compiles to \<open>coeffs\<close>, the node
  returns one triple for each triple of \<open>coeffs\<close>, in order: a constant-sentinel triple
  becomes the sentinel with shape (1,1) and the number that is the sum of all entries of its
  block; a variable triple keeps its identifier and shape, and its block becomes the single
  row of the column sums of the child's block (the sum over the row axis).  The block of a
  variable triple is always a matrix, so the sum over the axis never fails.
\<close>

theorem sum_entries_coeffs_sums:
  assumes "type_op n = SUM_ENTRIES" and "args n = a # rest"
    and "get_coefficients a = returns coeffs"
  shows "get_coefficients n = returns (map (\<lambda>(i, s, b).
           if i = CONSTANT_ID
           then (CONSTANT_ID, (1, 1),
                 Scalar (case b of Scalar x \<Rightarrow> x | Matrix m \<Rightarrow> (\<Sum>r\<leftarrow>m. \<Sum>x\<leftarrow>r. x)))
           else (i, s, Matrix [map (\<lambda>j. (\<Sum>r\<leftarrow>block_rows b. r ! j)) [0..<ncols (block_rows b)]]))
         coeffs)"
proof -
  let ?g = "\<lambda>(i, s, b).
           if i = CONSTANT_ID
           then (CONSTANT_ID, (1, 1),
                 Scalar (case b of Scalar x \<Rightarrow> x | Matrix m \<Rightarrow> (\<Sum>r\<leftarrow>m. \<Sum>x\<leftarrow>r. x)))
           else (i, s, Matrix [map (\<lambda>j. (\<Sum>r\<leftarrow>block_rows b. r ! j)) [0..<ncols (block_rows b)]])"
  have inv: "list_all matrix_coeff coeffs"
    using assms(3) by (rule get_coefficients_matrix)
  have "sum_entries_term t = Inr (?g t)" if "t \<in> set coeffs" for t
  proof -
    obtain i s b where t: "t = (i, s, b)" by (cases t)
    show ?thesis
    proof (cases "i = CONSTANT_ID")
      case True
      with t show ?thesis by (cases b) simp_all
    next
      case False
      from inv that t have "matrix_coeff (i, s, b)" by (auto simp: list_all_iff)
      with False obtain m where "b = Matrix m" by auto
      with t False show ?thesis by (simp add: block_rows_def)
    qed
  qed
  then have "map_result sum_entries_term coeffs = Inr (map ?g coeffs)"
    by (rule map_result_total)
  with assms show ?thesis
    by (simp add: get_coefficients_SUM_ENTRIES sum_entries_coeffs.simps)
qed

text \<open>
  The entries of \<open>x + c\<close> for a 2 by 2 variable and \<open>c = [[1,2],[3,4]]\<close>: the variable block
  becomes the row of four ones, the constant becomes 10 with shape (1,1).
\<close>

theorem sum_entries_coeffs_sums_witness:
  "get_coefficients (LinOp SUM_ENTRIES (1, 1)
      [LinOp SUM_OP (2, 2) [LinOp VARIABLE (2, 2) [] (VarId 0),
                            LinOp DENSE_CONST (2, 2) [] (Value (Matrix [[1, 2], [3, 4]]))] NoData] NoData)
    = returns [(Id 0, (2, 2), Matrix [[1, 1, 1, 1]]), (CONSTANT_ID, (1, 1), Scalar 10)]"
proof -
  have "get_coefficients (LinOp SUM_OP (2, 2) [LinOp VARIABLE (2, 2) [] (VarId 0),
                            LinOp DENSE_CONST (2, 2) [] (Value (Matrix [[1, 2], [3, 4]]))] NoData)
    = returns [(Id 0, (2, 2), Matrix [[1, 0, 0, 0], [0, 1, 0, 0], [0, 0, 1, 0], [0, 0, 0, 1]]),
               (CONSTANT_ID, (2, 2), Matrix [[1, 2], [3, 4]])]"
    by code_simp
  from sum_entries_coeffs_sums [OF _ _ this, of "LinOp SUM_ENTRIES (1, 1)
      [LinOp SUM_OP (2, 2) [LinOp VARIABLE (2, 2) [] (VarId 0),
                            LinOp DENSE_CONST (2, 2) [] (Value (Matrix [[1, 2], [3, 4]]))] NoData] NoData" "[]"]
  show ?thesis
    by (simp add: block_rows_def ncols_def upt_rec)
qed

subsection \<open>The aliased loop of the product\<close>

text \<open>
  Once the inner loop walks over the list it appends to, it does not end as long as every
  step succeeds: each pass appends one triple, so the end of the list stays ahead.
\<close>

lemma mul_inner_aliased_diverges:
  assumes step: "\<And>t. Q t \<Longrightarrow> \<exists>t'. mul_term cols lh t = Inr t' \<and> Q t'"
    and new: "list_all Q new" and i: "i < length new"
  shows "mul_inner_aliased cols lh i new = None"
proof (rule ccontr)
  assume "mul_inner_aliased cols lh i new \<noteq> None"
  then obtain r where r: "mul_inner_aliased cols lh i new = Some r" by auto
  have "\<not> (cols = cols \<and> lh = lh \<and> i < length new \<and> list_all Q new)"
  proof (rule mul_inner_aliased.raw_induct
      [where P = "\<lambda>c l i new r. \<not> (c = cols \<and> l = lh \<and> i < length new \<and> list_all Q new)", OF _ r])
    fix f c l i new r
    assume IH: "\<And>c l i new r. f c l i new = Some r \<Longrightarrow>
          \<not> (c = cols \<and> l = lh \<and> i < length new \<and> list_all Q new)"
      and body: "(if i < length new
           then case mul_term c l (new ! i) of Inl e \<Rightarrow> raises e
                | Inr t \<Rightarrow> f c l (Suc i) (new @ [t])
           else returns new) = Some r"
    show "\<not> (c = cols \<and> l = lh \<and> i < length new \<and> list_all Q new)"
    proof
      assume a: "c = cols \<and> l = lh \<and> i < length new \<and> list_all Q new"
      then have "Q (new ! i)" by (simp add: list_all_length)
      with step obtain t where t: "mul_term cols lh (new ! i) = Inr t" "Q t" by blast
      with a body have "f cols lh (Suc i) (new @ [t]) = Some r" by simp
      from IH [OF this] a t(2) show False by simp
    qed
  qed
  with new i show False by simp
qed

definition square2 :: "coeff \<Rightarrow> bool" where
  \<comment> \<open>a triple of the variable 0 whose block has two rows of two entries\<close>
  "square2 t = (\<exists>m. t = (Id 0, (2, 1), Matrix m) \<and> length m = 2 \<and> list_all (\<lambda>r. length r = 2) m)"

lemma mul_term_square2:
  assumes "square2 t"
  shows "\<exists>t'. mul_term 1 (CONSTANT_ID, (2, 2), Matrix [[1, 2], [3, 4]]) t = Inr t' \<and> square2 t'"
proof -
  from assms obtain m where m: "t = (Id 0, (2, 1), Matrix m)" "length m = 2"
      "list_all (\<lambda>r. length r = 2) m"
    by (auto simp: square2_def)
  then obtain r0 r1 where rows: "m = [r0, r1]" "length r0 = 2" "length r1 = 2"
    by (cases m; cases "tl m") auto
  then have "ncols m = 2" by (simp add: ncols_def)
  with m rows show ?thesis
    by (simp add: square2_def block_diag_def block_rows_def ncols_def mat_mul_def)
qed

text \<open>
  C4 (cross product of the compiled children), on a left child with two triples.  For
  \<open>PRODUCT(SUM(c, c), x)\<close> with \<open>c = [[1,2],[3,4]]\<close> and \<open>x\<close> a variable of shape (2,1), the
  left child compiles to two triples and the right child to one, so the claim asks for two
  triples.  The call does not return: after the first pass \<open>rh_coeffs\<close> is \<open>new_coeffs\<close>
  itself, and the second pass appends to the list it iterates over.
\<close>

theorem mul_coeffs_sum_left_diverges:
  "get_coefficients (LinOp SUM_OP (2, 2)
       [LinOp DENSE_CONST (2, 2) [] (Value (Matrix [[1, 2], [3, 4]])),
        LinOp DENSE_CONST (2, 2) [] (Value (Matrix [[1, 2], [3, 4]]))] NoData)
     = returns [(CONSTANT_ID, (2, 2), Matrix [[1, 2], [3, 4]]),
                (CONSTANT_ID, (2, 2), Matrix [[1, 2], [3, 4]])]
   \<and> get_coefficients (LinOp VARIABLE (2, 1) [] (VarId 0))
     = returns [(Id 0, (2, 1), Matrix [[1, 0], [0, 1]])]
   \<and> get_coefficients (LinOp MUL (2, 1)
       [LinOp SUM_OP (2, 2)
          [LinOp DENSE_CONST (2, 2) [] (Value (Matrix [[1, 2], [3, 4]])),
           LinOp DENSE_CONST (2, 2) [] (Value (Matrix [[1, 2], [3, 4]]))] NoData,
        LinOp VARIABLE (2, 1) [] (VarId 0)] NoData)
     = None"
proof -
  let ?c = "(CONSTANT_ID, (2, 2), Matrix [[1, 2], [3, 4]]) :: coeff"
  have l: "get_coefficients (LinOp SUM_OP (2, 2)
       [LinOp DENSE_CONST (2, 2) [] (Value (Matrix [[1, 2], [3, 4]])),
        LinOp DENSE_CONST (2, 2) [] (Value (Matrix [[1, 2], [3, 4]]))] NoData)
     = returns [?c, ?c]"
    by code_simp
  have r: "get_coefficients (LinOp VARIABLE (2, 1) [] (VarId 0))
     = returns [(Id 0, (2, 1), Matrix [[1, 0], [0, 1]])]"
    by code_simp
  have first: "mul_inner 1 ?c [(Id 0, (2, 1), Matrix [[1, 0], [0, 1]])] []
      = Inr [(Id 0, (2, 1), Matrix [[1, 2], [3, 4]])]"
    by code_simp
  have "list_all square2 [(Id 0, (2, 1), Matrix [[1, 2], [3, 4]])]"
    by (simp add: square2_def)
  then have second: "mul_inner_aliased 1 ?c 0 [(Id 0, (2, 1), Matrix [[1, 2], [3, 4]])] = None"
    by (intro mul_inner_aliased_diverges [where Q = square2] mul_term_square2) simp_all
  have "mul_loop 1 [?c, ?c] [(Id 0, (2, 1), Matrix [[1, 0], [0, 1]])]
      = bind (lift (mul_inner 1 ?c [(Id 0, (2, 1), Matrix [[1, 0], [0, 1]])] []))
             (mul_outer_aliased 1 [?c])"
    by (simp only: mul_loop_def list.case)
  also have "\<dots> = mul_outer_aliased 1 [?c] [(Id 0, (2, 1), Matrix [[1, 2], [3, 4]])]"
    by (simp only: first lift.simps bind.simps)
  also have "\<dots> = None"
    by (simp only: mul_outer_aliased.simps second bind.simps)
  finally have "mul_loop 1 [?c, ?c] [(Id 0, (2, 1), Matrix [[1, 0], [0, 1]])] = None" .
  with l r show ?thesis
    by (simp add: get_coefficients_MUL mul_coeffs.simps)
qed

subsection \<open>Slicing\<close>

text \<open>
  C8 (slicing round trip), on a 2 by 2 variable indexed by \<open>[0:2:1, 0:2:1]\<close>, its full range.
  The column slice keeps all four rows of the identity block; the loop over the columns
  then takes rows \<open>0:2\<close> of it, and rows \<open>2:4\<close> of the two rows that are left, which are
  none.  The block returned has no rows, where the variable itself compiles to the 4 by 4
  identity.
\<close>

theorem index_coeffs_full_range_example:
  "get_coefficients (LinOp INDEX (2, 2) [LinOp VARIABLE (2, 2) [] (VarId 0)]
       (Key \<lparr>start = Some 0, stop = Some 2, step = Some 1\<rparr>
            \<lparr>start = Some 0, stop = Some 2, step = Some 1\<rparr>))
     = returns [(Id 0, (2, 2), Matrix [])]
   \<and> get_coefficients (LinOp VARIABLE (2, 2) [] (VarId 0))
     = returns [(Id 0, (2, 2), Matrix [[1, 0, 0, 0], [0, 1, 0, 0], [0, 0, 1, 0], [0, 0, 0, 1]])]"
  by code_simp

section \<open>Reconstruction\<close>

subsection \<open>Direct evaluation and the value of a list of triples\<close>

text \<open>
  The compiler never evaluates an expression.  To state that its triples reconstruct the
  value of a node, the value is defined here from the meaning of the operators (a sum adds
  entrywise, a negation negates, a product is the matrix product, or the multiple when the
  left operand has shape (1,1), the sum of entries is a 1 by 1 matrix, an index slices, a
  transpose exchanges rows and columns), at the declared shape \<open>(r, c)\<close> of the node.
  Vectorization is column-major, the order in which the transpose block of the code reads
  its argument.
\<close>

definition is_mat :: "nat \<Rightarrow> nat \<Rightarrow> real list list \<Rightarrow> bool" where
  \<comment> \<open>\<open>r\<close> rows of \<open>c\<close> entries each\<close>
  "is_mat r c m = (length m = r \<and> list_all (\<lambda>row. length row = c) m)"

definition mat :: "nat \<Rightarrow> nat \<Rightarrow> (nat \<Rightarrow> nat \<Rightarrow> real) \<Rightarrow> real list list" where
  \<comment> \<open>the \<open>r\<close> by \<open>c\<close> matrix with entry \<open>f i j\<close> at \<open>(i, j)\<close>\<close>
  "mat r c f = map (\<lambda>i. map (\<lambda>j. f i j) [0..<c]) [0..<r]"

definition vec :: "nat \<Rightarrow> nat \<Rightarrow> real list list \<Rightarrow> real list" where
  \<comment> \<open>the columns of an \<open>r\<close> by \<open>c\<close> matrix, one after the other\<close>
  "vec r c m = map (\<lambda>k. m ! (k mod r) ! (k div r)) [0..<r * c]"

definition unvec :: "nat \<Rightarrow> nat \<Rightarrow> real list \<Rightarrow> real list list" where
  \<comment> \<open>a vector reshaped to \<open>r\<close> by \<open>c\<close>, column by column\<close>
  "unvec r c v = mat r c (\<lambda>i j. v ! (j * r + i))"

definition mat_vec :: "real list list \<Rightarrow> real list \<Rightarrow> real list" where
  \<comment> \<open>\<open>block \<cdot> vec\<close>: a matrix times a column\<close>
  "mat_vec b v = map (\<lambda>row. (\<Sum>k\<leftarrow>[0..<length v]. row ! k * v ! k)) b"

definition vadd :: "real list \<Rightarrow> real list \<Rightarrow> real list" where
  "vadd u v = map2 (+) u v"

type_synonym assignment = "nat \<Rightarrow> real list list"

fun evaluate :: "assignment \<Rightarrow> lin_op \<Rightarrow> real list list" where
  \<comment> \<open>the value of a node under an assignment of matrices to the variables; a left
      operand of shape (1,1) multiplies every entry of the right operand\<close>
  "evaluate env (LinOp t (r, c) as d) =
    (if t = VARIABLE then (case d of VarId v \<Rightarrow> env v | _ \<Rightarrow> [])
     else if t = PARAM then (case d of Param b \<Rightarrow> block_rows b | _ \<Rightarrow> [])
     else if t \<in> {SCALAR_CONST, DENSE_CONST, SPARSE_CONST} then
       (case d of Value b \<Rightarrow> block_rows b | _ \<Rightarrow> [])
     else if t = SUM_OP then mat r c (\<lambda>i j. (\<Sum>m\<leftarrow>map (evaluate env) as. m ! i ! j))
     else if t = NEG then
       (case as of a # _ \<Rightarrow> mat r c (\<lambda>i j. - (evaluate env a ! i ! j)) | [] \<Rightarrow> [])
     else if t = MUL then
       (case as of a # b # _ \<Rightarrow>
          (case size_op a of (m, k) \<Rightarrow>
             mat r c (\<lambda>i j.
               if (m, k) = (1, 1) then evaluate env a ! 0 ! 0 * evaluate env b ! i ! j
               else (\<Sum>l\<leftarrow>[0..<k]. evaluate env a ! i ! l * evaluate env b ! l ! j)))
        | _ \<Rightarrow> [])
     else if t = SUM_ENTRIES then
       (case as of a # _ \<Rightarrow> [[(\<Sum>row\<leftarrow>evaluate env a. sum_list row)]] | [] \<Rightarrow> [])
     else if t = INDEX then
       (case (as, d) of (a # _, Key k0 k1) \<Rightarrow>
          (case index (Matrix (evaluate env a)) (k0, k1) of Inr b \<Rightarrow> block_rows b | Inl e \<Rightarrow> [])
        | _ \<Rightarrow> [])
     else if t = TRANSPOSE then
       (case as of a # _ \<Rightarrow> mat r c (\<lambda>i j. evaluate env a ! j ! i) | [] \<Rightarrow> [])
     else [])"

fun term_vec :: "assignment \<Rightarrow> nat \<times> nat \<Rightarrow> coeff \<Rightarrow> real list" where
  \<comment> \<open>what one triple contributes: the vectorized constant, or the block times the
      vectorized value of the variable (vectorized at the shape the triple carries)\<close>
  "term_vec env (r, c) (CONSTANT_ID, sz, b) = vec r c (block_rows b)"
| "term_vec env (r, c) (Id v, (vr, vc), b) = mat_vec (block_rows b) (vec vr vc (env v))"

definition total_vec :: "assignment \<Rightarrow> nat \<times> nat \<Rightarrow> coeff list \<Rightarrow> real list" where
  "total_vec env sz cs = foldr (\<lambda>t acc. vadd (term_vec env sz t) acc) cs (replicate (fst sz * snd sz) 0)"

definition reconstruct :: "assignment \<Rightarrow> nat \<times> nat \<Rightarrow> coeff list \<Rightarrow> real list list" where
  \<comment> \<open>the sum of the contributions of all triples, reshaped to the shape of the node\<close>
  "reconstruct env sz cs = unvec (fst sz) (snd sz) (total_vec env sz cs)"

subsection \<open>The trees for which the law is proved\<close>

text \<open>
  Every shape has at least one row and one column; a variable is assigned a matrix of its
  declared shape and a constant holds one.  The operands of a sum and of a negation have
  the shape of the node, and the sum of entries has shape (1,1).  A transpose is applied to
  a variable and has the exchanged shape: \<open>transpose_coeffs\<close> assumes that its argument is
  a single variable.

  A product has the columns of its right operand, and either the shapes \<open>(r, k)\<close> and
  \<open>(k, c)\<close> of a matrix product, or a left operand of shape (1,1) and a right operand of
  the shape of the node.  Unless the right operand compiles to no triple at all, the left
  operand compiles to at most one triple, for the constant sentinel: with two or more the
  loop of \<open>mul_coeffs\<close> walks over the list it appends to.  A left block that is a number
  multiplies every term.  One that is a matrix needs the shapes of a matrix product; when
  it is 1 by 1 and the product has several columns, the right operand has constant terms
  only, for the code multiplies the two blocks as matrices and the block of a variable has
  more than one row.

  An index selects, with its two slices, as many rows and columns of its operand as its
  declared shape has.  A constant term is sliced as it is.  For a variable term the column
  slice, scaled by the rows of the operand, has to select whole column blocks, the rows
  \<open>j * rows + i\<close> of the block for the selected columns \<open>j\<close>; and either the row slice is
  whole, or one column is selected and the variable has one column, so that the loop over
  the columns of the variable runs once: a later pass slices the block that the pass before
  has left.
\<close>

definition whole :: "slice \<Rightarrow> bool" where
  \<comment> \<open>a slice without bounds and of step 1, as \<open>slice(None, None, None)\<close>\<close>
  "whole s = (start s = None \<and> stop s = None \<and> (step s = None \<or> step s = Some 1))"

definition column_blocks :: "nat \<Rightarrow> nat list \<Rightarrow> nat list" where
  \<comment> \<open>the rows of a block of stacked column blocks, \<open>rows\<close> rows each, that belong
      to the columns \<open>js\<close>\<close>
  "column_blocks rows js = concat (map (\<lambda>j. map (\<lambda>i. j * rows + i) [0..<rows]) js)"

definition rows_selected :: "slice \<Rightarrow> slice \<Rightarrow> nat \<Rightarrow> nat \<Rightarrow> nat list \<Rightarrow> coeff \<Rightarrow> bool" where
  \<comment> \<open>what the law needs of a term of the operand of an index: it is a constant, or
      the scaled column slice selects the column blocks of the selected columns and the
      loop over the columns of the variable leaves the selected rows\<close>
  "rows_selected k0 k1 rows cols js t =
     (fst t = CONSTANT_ID
      \<or> (slice_indices (scale_slice k1 rows) (rows * cols) = Inr (column_blocks rows js)
          \<and> (whole k0 \<or> (length js = 1 \<and> snd (fst (snd t)) = 1))))"

definition triples :: "lin_op \<Rightarrow> coeff list" where
  \<comment> \<open>the triples a node compiles to\<close>
  "triples a = (case get_coefficients a of Some (Inr cs) \<Rightarrow> cs | _ \<Rightarrow> [])"

definition constant_term :: "coeff \<Rightarrow> bool" where
  \<comment> \<open>a triple for the constant sentinel\<close>
  "constant_term t = (fst t = CONSTANT_ID)"

definition product_ok :: "bool \<Rightarrow> nat \<Rightarrow> coeff list \<Rightarrow> coeff list \<Rightarrow> bool" where
  \<comment> \<open>what the law needs of the compiled operands \<open>lh\<close> and \<open>rh\<close> of a product with
      \<open>cols\<close> columns; \<open>conform\<close> says that the shapes are those of a matrix product\<close>
  "product_ok conform cols lh rh =
     (rh = []
      \<or> (length lh \<le> 1
          \<and> list_all (\<lambda>l. constant_term l
               \<and> (case snd (snd l) of
                     Scalar _ \<Rightarrow> True
                   | Matrix _ \<Rightarrow>
                       conform
                       \<and> (\<not> is_scalar (snd (snd l)) \<or> cols = 1 \<or> list_all constant_term rh))) lh))"

fun index_ok :: "slice \<Rightarrow> slice \<Rightarrow> nat \<times> nat \<Rightarrow> nat \<times> nat \<Rightarrow> coeff list \<Rightarrow> bool" where
  \<comment> \<open>the two slices select as many rows and columns of the operand as the shape \<open>sz\<close>
      of the node has, and every term of the operand is sliced as the law needs\<close>
  "index_ok k0 k1 sz (rows, cols) cs =
     (case (slice_indices k0 rows, slice_indices k1 cols) of
        (Inr is, Inr js) \<Rightarrow>
          sz = (length is, length js) \<and> list_all (rows_selected k0 k1 rows cols js) cs
      | _ \<Rightarrow> False)"

fun supported :: "assignment \<Rightarrow> lin_op \<Rightarrow> bool" where
  \<comment> \<open>the trees for which the law is proved\<close>
  "supported env (LinOp t (r, c) as d) = (0 < r \<and> 0 < c \<and>
    (if t = VARIABLE then (case d of VarId v \<Rightarrow> is_mat r c (env v) | _ \<Rightarrow> False)
     else if t = PARAM then (case d of Param b \<Rightarrow> is_mat r c (block_rows b) | _ \<Rightarrow> False)
     else if t \<in> {SCALAR_CONST, DENSE_CONST, SPARSE_CONST} then
       (case d of Value b \<Rightarrow> is_mat r c (block_rows b) | _ \<Rightarrow> False)
     else if t = SUM_OP then list_all (\<lambda>a. supported env a \<and> size_op a = (r, c)) as
     else if t = NEG then
       (case as of a # _ \<Rightarrow> supported env a \<and> size_op a = (r, c) | [] \<Rightarrow> False)
     else if t = MUL then
       (case as of
          a # b # _ \<Rightarrow>
            supported env a \<and> supported env b \<and> snd (size_op b) = c
            \<and> (size_op a = (r, fst (size_op b)) \<or> size_op a = (1, 1) \<and> fst (size_op b) = r)
            \<and> product_ok (size_op a = (r, fst (size_op b))) c (triples a) (triples b)
        | _ \<Rightarrow> False)
     else if t = SUM_ENTRIES then
       (case as of a # _ \<Rightarrow> supported env a \<and> r = 1 \<and> c = 1 | [] \<Rightarrow> False)
     else if t = INDEX then
       (case (as, d) of
          (a # _, Key k0 k1) \<Rightarrow>
            supported env a \<and> index_ok k0 k1 (r, c) (size_op a) (triples a)
        | _ \<Rightarrow> False)
     else if t = TRANSPOSE then
       (case as of a # _ \<Rightarrow> type_op a = VARIABLE \<and> supported env a \<and> size_op a = (c, r)
        | [] \<Rightarrow> False)
     else False))"

subsection \<open>Vectors and matrices\<close>

lemma length_mat [simp]: "length (mat r c f) = r"
  by (simp add: mat_def)

lemma nth_mat [simp]: "i < r \<Longrightarrow> mat r c f ! i = map (f i) [0..<c]"
  by (simp add: mat_def)

lemma is_mat_mat [simp]: "is_mat r c (mat r c f)"
  by (simp add: is_mat_def mat_def list_all_iff)

lemma is_mat_length: "is_mat r c m \<Longrightarrow> length m = r"
  by (simp add: is_mat_def)

lemma is_mat_row: "is_mat r c m \<Longrightarrow> i < r \<Longrightarrow> length (m ! i) = c"
  by (simp add: is_mat_def list_all_length)

lemma is_matI: "length m = r \<Longrightarrow> (\<And>i. i < r \<Longrightarrow> length (m ! i) = c) \<Longrightarrow> is_mat r c m"
  by (simp add: is_mat_def list_all_length)

lemma length_vec [simp]: "length (vec r c m) = r * c"
  by (simp add: vec_def)

lemma nth_vec: "k < r * c \<Longrightarrow> vec r c m ! k = m ! (k mod r) ! (k div r)"
  by (simp add: vec_def)

lemma index_bounds:
  assumes "k < r * (c :: nat)"
  shows "k mod r < r" and "k div r < c"
proof -
  from assms have "0 < r" by (cases r) simp_all
  then show "k mod r < r" by simp
  from assms show "k div r < c" by (simp add: less_mult_imp_div_less mult.commute)
qed

lemma vec_mat: "vec r c (mat r c f) = map (\<lambda>k. f (k mod r) (k div r)) [0..<r * c]"
  by (rule nth_equalityI) (simp_all add: nth_vec index_bounds)

lemma vec_cong:
  "(\<And>i j. i < r \<Longrightarrow> j < c \<Longrightarrow> m ! i ! j = m' ! i ! j) \<Longrightarrow> vec r c m = vec r c m'"
  by (rule nth_equalityI) (simp_all add: nth_vec index_bounds)

lemma column_position:
  assumes "i < r" and "j < (c :: nat)"
  shows "j * r + i < r * c" and "(j * r + i) mod r = i" and "(j * r + i) div r = j"
proof -
  have "j * r + i < j * r + r" using assms by simp
  also have "\<dots> = Suc j * r" by simp
  also have "\<dots> \<le> c * r" using assms by (intro mult_le_mono1) simp
  finally show "j * r + i < r * c" by (simp add: mult.commute)
  show "(j * r + i) mod r = i" using assms by simp
  show "(j * r + i) div r = j" using assms by simp
qed

lemma unvec_vec:
  assumes "is_mat r c m"
  shows "unvec r c (vec r c m) = m"
proof (rule nth_equalityI)
  show "length (unvec r c (vec r c m)) = length m"
    using assms by (simp add: unvec_def is_mat_length)
next
  fix i assume "i < length (unvec r c (vec r c m))"
  then have i: "i < r" by (simp add: unvec_def)
  show "unvec r c (vec r c m) ! i = m ! i"
  proof (rule nth_equalityI)
    show "length (unvec r c (vec r c m) ! i) = length (m ! i)"
      using assms i by (simp add: unvec_def is_mat_row)
  next
    fix j assume "j < length (unvec r c (vec r c m) ! i)"
    with i have j: "j < c" by (simp add: unvec_def)
    with i show "unvec r c (vec r c m) ! i ! j = m ! i ! j"
      by (simp add: unvec_def nth_vec column_position)
  qed
qed

lemma length_vadd [simp]: "length (vadd u v) = min (length u) (length v)"
  by (simp add: vadd_def)

lemma nth_vadd: "k < length u \<Longrightarrow> k < length v \<Longrightarrow> vadd u v ! k = u ! k + v ! k"
  by (simp add: vadd_def)

lemma vadd_zero: "length v = n \<Longrightarrow> vadd v (replicate n 0) = v"
  by (rule nth_equalityI) (simp_all add: nth_vadd)

lemma vadd_assoc:
  "length u = n \<Longrightarrow> length v = n \<Longrightarrow> length w = n \<Longrightarrow> vadd (vadd u v) w = vadd u (vadd v w)"
  by (rule nth_equalityI) (simp_all add: nth_vadd)

lemma total_vec_Nil [simp]: "total_vec env sz [] = replicate (fst sz * snd sz) 0"
  by (simp add: total_vec_def)

lemma total_vec_Cons [simp]:
  "total_vec env sz (t # cs) = vadd (term_vec env sz t) (total_vec env sz cs)"
  by (simp add: total_vec_def)

definition sized :: "assignment \<Rightarrow> nat \<times> nat \<Rightarrow> coeff \<Rightarrow> bool" where
  \<comment> \<open>the contribution of the triple has one entry for each entry of the node\<close>
  "sized env sz t = (length (term_vec env sz t) = fst sz * snd sz)"

lemma length_total_vec:
  "list_all (sized env sz) cs \<Longrightarrow> length (total_vec env sz cs) = fst sz * snd sz"
  by (induction cs) (simp_all add: sized_def)

lemma total_vec_append:
  "list_all (sized env sz) xs \<Longrightarrow> list_all (sized env sz) ys \<Longrightarrow>
     total_vec env sz (xs @ ys) = vadd (total_vec env sz xs) (total_vec env sz ys)"
proof (induction xs)
  case Nil
  then show ?case
    by (simp add: length_total_vec) (rule nth_equalityI, simp_all add: length_total_vec nth_vadd)
next
  case (Cons t xs)
  then have t: "length (term_vec env sz t) = fst sz * snd sz"
    by (simp add: sized_def)
  from Cons.prems have xs: "length (total_vec env sz xs) = fst sz * snd sz"
    and ys: "length (total_vec env sz ys) = fst sz * snd sz"
    by (simp_all add: length_total_vec)
  from Cons show ?case
    by (simp add: vadd_assoc [OF t xs ys])
qed

fun good :: "assignment \<Rightarrow> nat \<times> nat \<Rightarrow> coeff \<Rightarrow> bool" where
  \<comment> \<open>a triple whose block fits a node of shape \<open>(r, c)\<close>; a variable of shape (1,1)
      occurs in nodes of one column only\<close>
  "good env (r, c) (CONSTANT_ID, sz, b) = is_mat r c (block_rows b)"
| "good env (r, c) (Id v, (vr, vc), b) =
     (is_mat (r * c) (vr * vc) (block_rows b) \<and> (\<exists>m. b = Matrix m) \<and> is_mat vr vc (env v)
      \<and> (vr = 1 \<and> vc = 1 \<longrightarrow> c = 1))"

lemma length_mat_vec [simp]: "length (mat_vec b v) = length b"
  by (simp add: mat_vec_def)

lemma nth_mat_vec: "i < length b \<Longrightarrow> mat_vec b v ! i = (\<Sum>k\<leftarrow>[0..<length v]. b ! i ! k * v ! k)"
  by (simp add: mat_vec_def)

lemma good_sized: "good env sz t \<Longrightarrow> sized env sz t"
  by (cases "(env, sz, t)" rule: good.cases) (auto simp: sized_def is_mat_length)

lemma good_all_sized: "list_all (good env sz) cs \<Longrightarrow> list_all (sized env sz) cs"
  by (auto simp: list_all_iff good_sized)

lemma sum_list_delta:
  "i < n \<Longrightarrow> (\<Sum>k\<leftarrow>[0..<n]. (if i = k then 1 else 0) * f k) = (f i :: real)"
  by (simp add: interv_sum_list_conv_sum_set_nat sum.delta' if_distrib [where f = "\<lambda>x. x * _"] cong: if_cong)

lemma mat_vec_eye:
  assumes "length v = n"
  shows "mat_vec (eye n) v = v"
proof (rule nth_equalityI)
  show "length (mat_vec (eye n) v) = length v" using assms by simp
next
  fix i assume "i < length (mat_vec (eye n) v)"
  then have i: "i < n" by simp
  have "map (\<lambda>k. eye n ! i ! k * v ! k) [0..<n] = map (\<lambda>k. (if i = k then 1 else 0) * v ! k) [0..<n]"
    using i by (intro map_cong) (simp_all add: nth_nth_eye)
  then have "(\<Sum>k\<leftarrow>[0..<n]. eye n ! i ! k * v ! k) = (\<Sum>k\<leftarrow>[0..<n]. (if i = k then 1 else 0) * v ! k)"
    by (rule arg_cong)
  also have "\<dots> = v ! i" using i by (rule sum_list_delta)
  finally show "mat_vec (eye n) v ! i = v ! i"
    using i assms by (simp only: nth_mat_vec length_eye)
qed

subsection \<open>Negations and sums\<close>

lemma block_rows_neg: "block_rows (neg_block b) = map (map uminus) (block_rows b)"
  by (cases b) (simp_all add: block_rows_def)

lemma vec_neg:
  assumes "is_mat r c m"
  shows "vec r c (map (map uminus) m) = map uminus (vec r c m)"
proof (rule nth_equalityI)
  show "length (vec r c (map (map uminus) m)) = length (map uminus (vec r c m))" by simp
next
  fix k assume "k < length (vec r c (map (map uminus) m))"
  then have k: "k < r * c" by simp
  then have "k mod r < r" "k div r < c" by (rule index_bounds)+
  with assms k show "vec r c (map (map uminus) m) ! k = map uminus (vec r c m) ! k"
    by (simp add: nth_vec is_mat_length is_mat_row)
qed

lemma mat_vec_neg:
  assumes "is_mat n (length v) b"
  shows "mat_vec (map (map uminus) b) v = map uminus (mat_vec b v)"
proof (rule nth_equalityI)
  show "length (mat_vec (map (map uminus) b) v) = length (map uminus (mat_vec b v))" by simp
next
  fix i assume "i < length (mat_vec (map (map uminus) b) v)"
  then have i: "i < length b" by simp
  with assms have row: "length (b ! i) = length v" by (simp add: is_mat_def list_all_length)
  have "map (\<lambda>k. map uminus (b ! i) ! k * v ! k) [0..<length v]
      = map (\<lambda>k. - (b ! i ! k * v ! k)) [0..<length v]"
    using row by (intro map_cong) simp_all
  then have "(\<Sum>k\<leftarrow>[0..<length v]. map uminus (b ! i) ! k * v ! k)
      = (\<Sum>k\<leftarrow>[0..<length v]. - (b ! i ! k * v ! k))"
    by (rule arg_cong)
  also have "\<dots> = - (\<Sum>k\<leftarrow>[0..<length v]. b ! i ! k * v ! k)"
    by (simp add: uminus_sum_list_map comp_def)
  finally show "mat_vec (map (map uminus) b) v ! i = map uminus (mat_vec b v) ! i"
    using i by (simp add: nth_mat_vec)
qed

lemma good_neg:
  assumes "good env sz t"
  shows "good env sz (neg_term t)"
    and "term_vec env sz (neg_term t) = map uminus (term_vec env sz t)"
proof -
  obtain r c where sz: "sz = (r, c)" by (cases sz)
  obtain i vr vc b where t: "t = (i, (vr, vc), b)" by (cases t) auto
  show "good env sz (neg_term t)"
    using assms sz t by (cases i) (auto simp: block_rows_neg is_mat_def list_all_iff)
  show "term_vec env sz (neg_term t) = map uminus (term_vec env sz t)"
  proof (cases i)
    case CONSTANT_ID
    with assms sz t show ?thesis by (simp add: block_rows_neg vec_neg)
  next
    case (Id v)
    with assms sz t have "is_mat (r * c) (length (vec vr vc (env v))) (block_rows b)" by simp
    with Id sz t show ?thesis by (simp add: block_rows_neg mat_vec_neg)
  qed
qed

lemma vadd_neg: "vadd (map uminus u) (map uminus v) = map uminus (vadd u v)"
  by (rule nth_equalityI) (simp_all add: nth_vadd)

lemma total_vec_neg:
  "list_all (good env sz) cs \<Longrightarrow>
     total_vec env sz (map neg_term cs) = map uminus (total_vec env sz cs)"
  by (induction cs) (simp_all add: good_neg vadd_neg)

lemma all_good_neg: "list_all (good env sz) cs \<Longrightarrow> list_all (good env sz) (map neg_term cs)"
  by (induction cs) (simp_all add: good_neg)

lemma vec_mat_neg: "vec r c (mat r c (\<lambda>i j. - (m ! i ! j))) = map uminus (vec r c m)"
  by (rule nth_equalityI) (simp_all add: vec_mat nth_vec)

text \<open>Contributions of a concatenation.\<close>

lemma total_vec_concat:
  "list_all (list_all (good env sz)) css \<Longrightarrow>
     total_vec env sz (concat css)
       = foldr (\<lambda>cs acc. vadd (total_vec env sz cs) acc) css (replicate (fst sz * snd sz) 0)"
proof (induction css)
  case Nil
  then show ?case by simp
next
  case (Cons cs css)
  then have "list_all (good env sz) (concat css)" by (auto simp: list_all_iff)
  with Cons show ?case by (simp add: total_vec_append good_all_sized)
qed

lemma foldr_vadd_vec:
  "foldr (\<lambda>m acc. vadd (vec r c m) acc) ms (replicate (r * c) 0)
     = vec r c (mat r c (\<lambda>i j. (\<Sum>m\<leftarrow>ms. m ! i ! j)))"
proof (induction ms)
  case Nil
  show ?case by (rule nth_equalityI) (simp_all add: vec_mat)
next
  case (Cons m ms)
  show ?case
    unfolding foldr.simps comp_def Cons.IH
    by (rule nth_equalityI) (simp_all add: vec_mat nth_vadd nth_vec)
qed

lemma sum_list_vadd: "length u = length v \<Longrightarrow> sum_list (vadd u v) = sum_list u + sum_list v"
  unfolding vadd_def by (induction u v rule: list_induct2) simp_all

lemma sum_columns:
  fixes g :: "nat \<Rightarrow> real"
  shows "(\<Sum>k<c * r. g k) = (\<Sum>j<c. \<Sum>i<r. g (j * r + i))"
proof -
  have "(\<Sum>j<c. \<Sum>i<r. g (j * r + i)) = (\<Sum>j<c. sum g {j * r..<j * r + r})"
  proof (rule sum.cong [OF refl])
    fix j :: nat
    have "sum g {0 + j * r..<r + j * r} = (\<Sum>i = 0..<r. g (i + j * r))"
      by (rule sum.shift_bounds_nat_ivl)
    then show "(\<Sum>i<r. g (j * r + i)) = sum g {j * r..<j * r + r}"
      by (simp add: add.commute lessThan_atLeast0)
  qed
  also have "\<dots> = (\<Sum>k<c * r. g k)" by (rule sum.nat_group)
  finally show ?thesis by simp
qed

lemma sum_entries_vec:
  assumes "is_mat r c m"
  shows "sum_list (vec r c m) = (\<Sum>row\<leftarrow>m. sum_list row)"
proof -
  have "sum_list (vec r c m) = (\<Sum>k<c * r. m ! (k mod r) ! (k div r))"
    by (simp add: vec_def interv_sum_list_conv_sum_set_nat lessThan_atLeast0 mult.commute)
  also have "\<dots> = (\<Sum>j<c. \<Sum>i<r. m ! ((j * r + i) mod r) ! ((j * r + i) div r))"
    by (rule sum_columns)
  also have "\<dots> = (\<Sum>j<c. \<Sum>i<r. m ! i ! j)"
    by (intro sum.cong refl) simp
  also have "\<dots> = (\<Sum>i<r. \<Sum>j<c. m ! i ! j)"
    by (rule sum.swap)
  also have "\<dots> = (\<Sum>i<r. sum_list (m ! i))"
  proof (rule sum.cong [OF refl])
    fix i assume "i \<in> {..<r}"
    with assms have "length (m ! i) = c" by (simp add: is_mat_row)
    then show "(\<Sum>j<c. m ! i ! j) = sum_list (m ! i)"
      by (simp add: sum_list_sum_nth lessThan_atLeast0)
  qed
  also have "\<dots> = (\<Sum>row\<leftarrow>m. sum_list row)"
  proof -
    have "map sum_list m = map (\<lambda>i. sum_list (m ! i)) [0..<length m]"
      by (rule nth_equalityI) simp_all
    then have "(\<Sum>row\<leftarrow>m. sum_list row) = (\<Sum>i\<leftarrow>[0..<length m]. sum_list (m ! i))"
      by (rule arg_cong)
    with assms show ?thesis
      by (simp add: interv_sum_list_conv_sum_set_nat lessThan_atLeast0 is_mat_length)
  qed
  finally show ?thesis .
qed

lemma column_sums_mat_vec:
  "(\<Sum>k\<leftarrow>ks. (\<Sum>row\<leftarrow>b. row ! k) * x ! k) = (\<Sum>row\<leftarrow>b. \<Sum>k\<leftarrow>ks. row ! k * (x ! k :: real))"
proof (induction b)
  case Nil
  show ?case by simp
next
  case (Cons row b)
  show ?case by (simp add: distrib_right sum_list_addf Cons.IH)
qed

lemma ncols_is_mat: "is_mat r c m \<Longrightarrow> 0 < r \<Longrightarrow> ncols m = c"
  by (cases m) (auto simp: is_mat_def ncols_def)

lemma vec_single [simp]: "vec (Suc 0) (Suc 0) [[a]] = [a]"
  by (simp add: vec_def)

lemma sum_entries_term_good:
  assumes "good env (r, c) t" and "0 < r" and "0 < c"
  shows "\<exists>t'. sum_entries_term t = Inr t' \<and> good env (1, 1) t'
           \<and> term_vec env (1, 1) t' = [sum_list (term_vec env (r, c) t)]"
proof -
  obtain i vr vc b where t: "t = (i, (vr, vc), b)" by (cases t) auto
  show ?thesis
  proof (cases i)
    case CONSTANT_ID
    show ?thesis
    proof (cases b)
      case (Scalar a)
      with assms CONSTANT_ID t have "r = 1" "c = 1"
        by (auto simp: is_mat_def block_rows_def)
      with Scalar CONSTANT_ID t show ?thesis
        by (simp add: block_rows_def is_mat_def)
    next
      case (Matrix m)
      with assms CONSTANT_ID t have "is_mat r c m" by (simp add: block_rows_def)
      then have "sum_list (vec r c m) = (\<Sum>row\<leftarrow>m. sum_list row)" by (rule sum_entries_vec)
      with Matrix CONSTANT_ID t show ?thesis
        by (simp add: block_rows_def is_mat_def)
    qed
  next
    case (Id v)
    with assms t obtain m where m: "b = Matrix m" "is_mat (r * c) (vr * vc) m" "is_mat vr vc (env v)"
      by (auto simp: block_rows_def)
    from assms have "0 < r * c" by simp
    with m(2) have nc: "ncols m = vr * vc" by (rule ncols_is_mat)
    let ?x = "vec vr vc (env v)"
    have "map (\<lambda>k. map (\<lambda>j. \<Sum>row\<leftarrow>m. row ! j) [0..<vr * vc] ! k * ?x ! k) [0..<vr * vc]
        = map (\<lambda>k. (\<Sum>row\<leftarrow>m. row ! k) * ?x ! k) [0..<vr * vc]"
      by (rule map_cong) simp_all
    then have e: "(\<Sum>k\<leftarrow>[0..<vr * vc]. map (\<lambda>j. \<Sum>row\<leftarrow>m. row ! j) [0..<vr * vc] ! k * ?x ! k)
        = (\<Sum>k\<leftarrow>[0..<vr * vc]. (\<Sum>row\<leftarrow>m. row ! k) * ?x ! k)"
      by (rule arg_cong)
    have "mat_vec [map (\<lambda>j. \<Sum>row\<leftarrow>m. row ! j) [0..<vr * vc]] ?x
        = [(\<Sum>k\<leftarrow>[0..<vr * vc]. map (\<lambda>j. \<Sum>row\<leftarrow>m. row ! j) [0..<vr * vc] ! k * ?x ! k)]"
      by (simp add: mat_vec_def)
    also have "\<dots> = [(\<Sum>k\<leftarrow>[0..<vr * vc]. (\<Sum>row\<leftarrow>m. row ! k) * ?x ! k)]"
      by (simp only: e)
    also have "\<dots> = [(\<Sum>row\<leftarrow>m. \<Sum>k\<leftarrow>[0..<vr * vc]. row ! k * ?x ! k)]"
      by (simp only: column_sums_mat_vec)
    also have "\<dots> = [sum_list (mat_vec m ?x)]"
      by (simp add: mat_vec_def comp_def)
    finally show ?thesis
      using Id t m nc by (simp add: block_rows_def is_mat_def)
  qed
qed

lemma map_result_sum_entries:
  assumes "0 < r" and "0 < c"
  shows "list_all (good env (r, c)) cs \<Longrightarrow>
     \<exists>cs'. map_result sum_entries_term cs = Inr cs' \<and> list_all (good env (1, 1)) cs'
       \<and> total_vec env (1, 1) cs' = [sum_list (total_vec env (r, c) cs)]"
proof (induction cs)
  case Nil
  show ?case by (simp add: sum_list_replicate)
next
  case (Cons t cs)
  then obtain cs' where cs': "map_result sum_entries_term cs = Inr cs'"
      "list_all (good env (1, 1)) cs'"
      "total_vec env (1, 1) cs' = [sum_list (total_vec env (r, c) cs)]"
    by auto
  from Cons.prems assms obtain t' where t': "sum_entries_term t = Inr t'" "good env (1, 1) t'"
      "term_vec env (1, 1) t' = [sum_list (term_vec env (r, c) t)]"
    using sum_entries_term_good [of env r c t] by auto
  from Cons.prems have "length (term_vec env (r, c) t) = length (total_vec env (r, c) cs)"
    using good_sized [of env "(r, c)" t] length_total_vec [of env "(r, c)" cs]
    by (simp add: sized_def good_all_sized)
  then have "sum_list (vadd (term_vec env (r, c) t) (total_vec env (r, c) cs))
      = sum_list (term_vec env (r, c) t) + sum_list (total_vec env (r, c) cs)"
    by (rule sum_list_vadd)
  with cs' t' show ?case by (simp add: vadd_def)
qed

text \<open>The transpose block applied to a vectorized matrix.\<close>

lemma transpose_position:
  assumes "k < r * (c :: nat)"
  shows "(\<exists>row < r. \<exists>col < c. k = row * c + col \<and> l = col * r + row)
           \<longleftrightarrow> l = (k mod c) * r + k div c"
proof
  assume "\<exists>row < r. \<exists>col < c. k = row * c + col \<and> l = col * r + row"
  then obtain row col where "row < r" "col < c" "k = row * c + col" "l = col * r + row" by blast
  then show "l = (k mod c) * r + k div c" by simp
next
  assume l: "l = (k mod c) * r + k div c"
  from assms have "k < c * r" by (simp add: mult.commute)
  then have "k mod c < c" "k div c < r" by (rule index_bounds)+
  moreover have "k = (k div c) * c + k mod c" by simp
  ultimately show "\<exists>row < r. \<exists>col < c. k = row * c + col \<and> l = col * r + row"
    using l by blast
qed

lemma mat_vec_transpose_block:
  assumes "is_mat r c x"
  shows "mat_vec (transpose_block r c) (vec r c x) = vec c r (mat c r (\<lambda>i j. x ! j ! i))"
proof (rule nth_equalityI)
  show "length (mat_vec (transpose_block r c) (vec r c x)) = length (vec c r (mat c r (\<lambda>i j. x ! j ! i)))"
    by (simp add: length_transpose_block mult.commute)
next
  fix k assume "k < length (mat_vec (transpose_block r c) (vec r c x))"
  then have k: "k < r * c" by (simp add: length_transpose_block)
  then have k': "k < c * r" by (simp add: mult.commute)
  then have b: "k mod c < c" "k div c < r" by (rule index_bounds)+
  let ?l = "(k mod c) * r + k div c"
  from b have l: "?l < r * c" "?l mod r = k div c" "?l div r = k mod c"
    by (simp_all add: column_position)
  have "map (\<lambda>l. transpose_block r c ! k ! l * vec r c x ! l) [0..<r * c]
      = map (\<lambda>l. (if ?l = l then 1 else 0) * vec r c x ! l) [0..<r * c]"
  proof (rule map_cong [OF refl])
    fix l assume "l \<in> set [0..<r * c]"
    then have "l < r * c" by simp
    with k have "transpose_block r c ! k ! l
        = (if \<exists>row < r. \<exists>col < c. k = row * c + col \<and> l = col * r + row then 1 else 0)"
      by (rule nth_transpose_block)
    also have "\<dots> = (if ?l = l then 1 else 0)"
      using transpose_position [OF k, of l] by auto
    finally show "transpose_block r c ! k ! l * vec r c x ! l = (if ?l = l then 1 else 0) * vec r c x ! l"
      by simp
  qed
  then have "(\<Sum>l\<leftarrow>[0..<r * c]. transpose_block r c ! k ! l * vec r c x ! l)
      = (\<Sum>l\<leftarrow>[0..<r * c]. (if ?l = l then 1 else 0) * vec r c x ! l)"
    by (rule arg_cong)
  also have "\<dots> = vec r c x ! ?l" using l(1) by (rule sum_list_delta)
  also have "\<dots> = x ! (k div c) ! (k mod c)" using l by (simp add: nth_vec)
  finally have "mat_vec (transpose_block r c) (vec r c x) ! k = x ! (k div c) ! (k mod c)"
    using k by (simp add: nth_mat_vec length_transpose_block)
  moreover have "vec c r (mat c r (\<lambda>i j. x ! j ! i)) ! k = x ! (k div c) ! (k mod c)"
    using k' b by (simp add: vec_mat)
  ultimately show "mat_vec (transpose_block r c) (vec r c x) ! k = vec c r (mat c r (\<lambda>i j. x ! j ! i)) ! k"
    by simp
qed

lemma is_mat_transpose_block: "is_mat (r * c) (r * c) (transpose_block r c)"
  by (rule is_matI) (simp_all add: length_transpose_block length_row_transpose_block)

lemma is_mat_eye: "is_mat n n (eye n)"
  by (rule is_matI) (simp_all add: nth_eye)

subsection \<open>Products\<close>

definition left_mul :: "real list list \<Rightarrow> nat \<Rightarrow> nat \<Rightarrow> nat \<Rightarrow> real list \<Rightarrow> real list" where
  \<comment> \<open>the vectorized product \<open>a \<cdot> X\<close> from the vectorized \<open>X\<close>, for \<open>a\<close> of shape
      \<open>(m, k)\<close> and \<open>X\<close> of shape \<open>(k, c)\<close>\<close>
  "left_mul a m k c u =
     map (\<lambda>p. (\<Sum>l\<leftarrow>[0..<k]. a ! (p mod m) ! l * u ! ((p div m) * k + l))) [0..<m * c]"

lemma length_left_mul [simp]: "length (left_mul a m k c u) = m * c"
  by (simp add: left_mul_def)

lemma nth_left_mul:
  "p < m * c \<Longrightarrow>
     left_mul a m k c u ! p = (\<Sum>l\<leftarrow>[0..<k]. a ! (p mod m) ! l * u ! ((p div m) * k + l))"
  by (simp add: left_mul_def)

lemma sum_list_cong_upt:
  "(\<And>l. l < k \<Longrightarrow> f l = g l) \<Longrightarrow> (\<Sum>l\<leftarrow>[0..<k]. f l) = (\<Sum>l\<leftarrow>[0..<k]. g l :: real)"
  by (rule arg_cong [where f = sum_list], rule map_cong) simp_all

lemma left_mul_vadd:
  assumes "length u = k * c" and "length w = k * c"
  shows "left_mul a m k c (vadd u w) = vadd (left_mul a m k c u) (left_mul a m k c w)"
proof (rule nth_equalityI)
  show "length (left_mul a m k c (vadd u w)) = length (vadd (left_mul a m k c u) (left_mul a m k c w))"
    by simp
next
  fix p assume "p < length (left_mul a m k c (vadd u w))"
  then have p: "p < m * c" by simp
  then have q: "p div m < c" by (rule index_bounds)
  have "(\<Sum>l\<leftarrow>[0..<k]. a ! (p mod m) ! l * vadd u w ! ((p div m) * k + l))
      = (\<Sum>l\<leftarrow>[0..<k]. a ! (p mod m) ! l * u ! ((p div m) * k + l)
                        + a ! (p mod m) ! l * w ! ((p div m) * k + l))"
  proof (rule sum_list_cong_upt)
    fix l assume l: "l < k"
    from l q have "(p div m) * k + l < k * c" by (rule column_position(1))
    with assms show "a ! (p mod m) ! l * vadd u w ! ((p div m) * k + l)
        = a ! (p mod m) ! l * u ! ((p div m) * k + l) + a ! (p mod m) ! l * w ! ((p div m) * k + l)"
      by (simp add: nth_vadd distrib_left)
  qed
  then show "left_mul a m k c (vadd u w) ! p = vadd (left_mul a m k c u) (left_mul a m k c w) ! p"
    using p by (simp add: nth_left_mul nth_vadd sum_list_addf)
qed

lemma left_mul_zero: "left_mul a m k c (replicate (k * c) 0) = replicate (m * c) 0"
proof (rule nth_equalityI)
  show "length (left_mul a m k c (replicate (k * c) 0)) = length (replicate (m * c) (0 :: real))"
    by simp
next
  fix p assume "p < length (left_mul a m k c (replicate (k * c) 0))"
  then have p: "p < m * c" by simp
  then have q: "p div m < c" by (rule index_bounds)
  have "(\<Sum>l\<leftarrow>[0..<k]. a ! (p mod m) ! l * replicate (k * c) 0 ! ((p div m) * k + l))
      = (\<Sum>l\<leftarrow>[0..<k]. 0)"
  proof (rule sum_list_cong_upt)
    fix l assume l: "l < k"
    from l q have "(p div m) * k + l < k * c" by (rule column_position(1))
    then show "a ! (p mod m) ! l * replicate (k * c) 0 ! ((p div m) * k + l) = 0" by simp
  qed
  then show "left_mul a m k c (replicate (k * c) 0) ! p = replicate (m * c) 0 ! p"
    using p by (simp add: nth_left_mul)
qed

lemma left_mul_vec:
  "vec m c (mat m c (\<lambda>i j. (\<Sum>l\<leftarrow>[0..<k]. a ! i ! l * x ! l ! j))) = left_mul a m k c (vec k c x)"
proof (rule nth_equalityI)
  show "length (vec m c (mat m c (\<lambda>i j. (\<Sum>l\<leftarrow>[0..<k]. a ! i ! l * x ! l ! j))))
      = length (left_mul a m k c (vec k c x))"
    by simp
next
  fix p assume "p < length (vec m c (mat m c (\<lambda>i j. (\<Sum>l\<leftarrow>[0..<k]. a ! i ! l * x ! l ! j))))"
  then have p: "p < m * c" by simp
  then have q: "p div m < c" by (rule index_bounds)
  have "(\<Sum>l\<leftarrow>[0..<k]. a ! (p mod m) ! l * vec k c x ! ((p div m) * k + l))
      = (\<Sum>l\<leftarrow>[0..<k]. a ! (p mod m) ! l * x ! l ! (p div m))"
  proof (rule sum_list_cong_upt)
    fix l assume "l < k"
    with q show "a ! (p mod m) ! l * vec k c x ! ((p div m) * k + l) = a ! (p mod m) ! l * x ! l ! (p div m)"
      by (simp add: nth_vec column_position)
  qed
  then show "vec m c (mat m c (\<lambda>i j. (\<Sum>l\<leftarrow>[0..<k]. a ! i ! l * x ! l ! j))) ! p
      = left_mul a m k c (vec k c x) ! p"
    using p by (simp add: vec_mat nth_left_mul)
qed

lemma map_index: "map f xs = map (\<lambda>i. f (xs ! i)) [0..<length xs]"
  by (rule nth_equalityI) simp_all

lemma mat_mul_mat:
  assumes "is_mat m k a" and "is_mat k n b" and "0 < k"
  shows "mat_mul a b = mat m n (\<lambda>i j. (\<Sum>l\<leftarrow>[0..<k]. a ! i ! l * b ! l ! j))"
proof -
  from assms have "length a = m" "length b = k" "ncols b = n"
    by (simp_all add: is_mat_length ncols_is_mat)
  then show ?thesis
    unfolding mat_mul_def mat_def by (subst map_index) simp
qed

lemma mat_vec_assoc:
  assumes "length x = n" and "length b = k"
  shows "mat_vec (mat m n (\<lambda>i j. (\<Sum>l\<leftarrow>[0..<k]. d ! i ! l * b ! l ! j))) x = mat_vec (map (\<lambda>i. d ! i) [0..<m]) (mat_vec b x)"
proof (rule nth_equalityI)
  show "length (mat_vec (mat m n (\<lambda>i j. (\<Sum>l\<leftarrow>[0..<k]. d ! i ! l * b ! l ! j))) x)
      = length (mat_vec (map (\<lambda>i. d ! i) [0..<m]) (mat_vec b x))"
    by simp
next
  fix i assume "i < length (mat_vec (mat m n (\<lambda>i j. (\<Sum>l\<leftarrow>[0..<k]. d ! i ! l * b ! l ! j))) x)"
  then have i: "i < m" by simp
  have "(\<Sum>j\<leftarrow>[0..<n]. mat m n (\<lambda>i j. (\<Sum>l\<leftarrow>[0..<k]. d ! i ! l * b ! l ! j)) ! i ! j * x ! j)
      = (\<Sum>j\<leftarrow>[0..<n]. (\<Sum>l\<leftarrow>[0..<k]. d ! i ! l * b ! l ! j) * x ! j)"
    using i by (intro sum_list_cong_upt) simp
  also have "\<dots> = (\<Sum>j = 0..<n. \<Sum>l = 0..<k. d ! i ! l * b ! l ! j * x ! j)"
    by (simp add: interv_sum_list_conv_sum_set_nat sum_distrib_right)
  also have "\<dots> = (\<Sum>l = 0..<k. \<Sum>j = 0..<n. d ! i ! l * b ! l ! j * x ! j)"
    by (rule sum.swap)
  also have "\<dots> = (\<Sum>l = 0..<k. d ! i ! l * (\<Sum>j = 0..<n. b ! l ! j * x ! j))"
    by (simp add: sum_distrib_left mult.assoc)
  also have "\<dots> = (\<Sum>l\<leftarrow>[0..<k]. d ! i ! l * (\<Sum>j\<leftarrow>[0..<n]. b ! l ! j * x ! j))"
    by (simp add: interv_sum_list_conv_sum_set_nat)
  also have "\<dots> = (\<Sum>l\<leftarrow>[0..<k]. d ! i ! l * mat_vec b x ! l)"
    using assms by (intro sum_list_cong_upt) (simp add: nth_mat_vec)
  finally show "mat_vec (mat m n (\<lambda>i j. (\<Sum>l\<leftarrow>[0..<k]. d ! i ! l * b ! l ! j))) x ! i
      = mat_vec (map (\<lambda>i. d ! i) [0..<m]) (mat_vec b x) ! i"
    using i assms by (simp add: nth_mat_vec)
qed

definition diag_rows :: "real list list \<Rightarrow> nat \<Rightarrow> nat \<Rightarrow> real list list" where
  \<comment> \<open>the rows of \<open>c\<close> copies of \<open>a\<close>, of \<open>k\<close> columns, along the diagonal\<close>
  "diag_rows a k c =
     concat (map (\<lambda>q. map (\<lambda>r. replicate (q * k) 0 @ r @ replicate ((c - 1 - q) * k) 0) a) [0..<c])"

lemma length_concat_uniform:
  "(\<And>q. q < c \<Longrightarrow> length (f q) = m) \<Longrightarrow> length (concat (map f [0..<c])) = c * m"
  by (induction c) simp_all

lemma nth_concat_uniform:
  assumes "\<And>q. q < c \<Longrightarrow> length (f q) = m" and "q < c" and "i < m"
  shows "concat (map f [0..<c]) ! (q * m + i) = f q ! i"
  using assms
proof (induction c)
  case 0
  then show ?case by simp
next
  case (Suc c)
  have len: "length (concat (map f [0..<c])) = c * m"
    using Suc.prems(1) by (intro length_concat_uniform) simp
  show ?case
  proof (cases "q < c")
    case True
    with Suc.prems(3) have "q * m + i < c * m" using column_position(1) [of i m q c]
      by (simp add: mult.commute)
    with True Suc show ?thesis by (simp add: nth_append len)
  next
    case False
    with Suc.prems(2) have "q = c" by simp
    with Suc.prems show ?thesis by (simp add: nth_append len)
  qed
qed

lemma pad_length:
  assumes "q < (c :: nat)"
  shows "q * k + (k + (c - 1 - q) * k) = k * c"
proof -
  from assms obtain d where "c = Suc (q + d)" using less_imp_Suc_add by blast
  then show ?thesis by (simp add: algebra_simps)
qed

lemma pad_dot:
  fixes u :: "real list"
  assumes "length r = k" and "q < c"
  shows "(\<Sum>j\<leftarrow>[0..<k * c]. (replicate (q * k) 0 @ r @ replicate ((c - 1 - q) * k) 0) ! j * u ! j)
       = (\<Sum>l\<leftarrow>[0..<k]. r ! l * u ! (q * k + l))"
proof -
  let ?pad = "replicate (q * k) 0 @ r @ replicate ((c - 1 - q) * k) 0"
  let ?g = "\<lambda>j. ?pad ! j * u ! j"
  have "q * k + k = Suc q * k" by simp
  also have "\<dots> \<le> c * k" using assms(2) by (intro mult_le_mono1) simp
  finally have le: "q * k + k \<le> k * c" by (simp add: mult.commute)
  have tot: "length ?pad = k * c"
    using assms(1) pad_length [OF assms(2), of k] by simp
  have zero: "?g j = 0" if "j \<in> {0..<k * c} - {q * k..<q * k + k}" for j
  proof (cases "j < q * k")
    case True
    then show ?thesis by (simp add: nth_append)
  next
    case False
    with that have j: "q * k + k \<le> j" "j < k * c" by auto
    with assms(1) tot have "j - q * k - k < (c - 1 - q) * k" by simp
    moreover from j have "\<not> j < q * k" "\<not> j - q * k < k" by arith+
    ultimately have "?pad ! j = 0" using assms(1) by (simp add: nth_append)
    then show ?thesis by simp
  qed
  have "(\<Sum>j\<leftarrow>[0..<k * c]. ?g j) = sum ?g {0..<k * c}"
    by (simp add: interv_sum_list_conv_sum_set_nat)
  also have "\<dots> = sum ?g {q * k..<q * k + k}"
    using le zero by (intro sum.mono_neutral_right) auto
  also have "\<dots> = sum ?g {0 + q * k..<k + q * k}" by (simp add: add.commute)
  also have "\<dots> = (\<Sum>l = 0..<k. ?g (l + q * k))" by (rule sum.shift_bounds_nat_ivl)
  also have "\<dots> = (\<Sum>l = 0..<k. r ! l * u ! (q * k + l))"
    using assms(1) by (intro sum.cong refl) (simp add: nth_append add.commute)
  also have "\<dots> = (\<Sum>l\<leftarrow>[0..<k]. r ! l * u ! (q * k + l))"
    by (simp add: interv_sum_list_conv_sum_set_nat)
  finally show ?thesis .
qed

lemma length_diag_rows: "length (diag_rows a k c) = c * length a"
  unfolding diag_rows_def by (rule length_concat_uniform) simp

lemma nth_diag_rows:
  assumes "q < c" and "i < length a"
  shows "diag_rows a k c ! (q * length a + i)
       = replicate (q * k) 0 @ a ! i @ replicate ((c - 1 - q) * k) 0"
  unfolding diag_rows_def using assms
  by (subst nth_concat_uniform [where m = "length a"]) simp_all

lemma is_mat_diag_rows:
  assumes "is_mat m k a"
  shows "is_mat (m * c) (k * c) (diag_rows a k c)"
proof (rule is_matI)
  show "length (diag_rows a k c) = m * c"
    using assms by (simp add: length_diag_rows is_mat_length mult.commute)
next
  fix p assume p: "p < m * c"
  then have b: "p mod m < m" "p div m < c" by (rule index_bounds)+
  have "p = (p div m) * m + p mod m" by simp
  then have "diag_rows a k c ! p = diag_rows a k c ! ((p div m) * length a + p mod m)"
    using assms by (simp add: is_mat_length)
  also have "\<dots> = replicate ((p div m) * k) 0 @ a ! (p mod m) @ replicate ((c - 1 - p div m) * k) 0"
    using b assms by (intro nth_diag_rows) (simp_all add: is_mat_length)
  finally have row: "diag_rows a k c ! p
      = replicate ((p div m) * k) 0 @ a ! (p mod m) @ replicate ((c - 1 - p div m) * k) 0" .
  from assms b(1) have "length (a ! (p mod m)) = k" by (simp add: is_mat_row)
  then show "length (diag_rows a k c ! p) = k * c"
    using pad_length [OF b(2), of k] by (simp add: row)
qed

lemma mat_vec_diag_rows:
  assumes "is_mat m k a" and "length u = k * c"
  shows "mat_vec (diag_rows a k c) u = left_mul a m k c u"
proof (rule nth_equalityI)
  show "length (mat_vec (diag_rows a k c) u) = length (left_mul a m k c u)"
    using assms by (simp add: length_diag_rows is_mat_length mult.commute)
next
  fix p assume "p < length (mat_vec (diag_rows a k c) u)"
  then have p: "p < m * c" using assms by (simp add: length_diag_rows is_mat_length mult.commute)
  then have b: "p mod m < m" "p div m < c" by (rule index_bounds)+
  have "p = (p div m) * m + p mod m" by simp
  then have "diag_rows a k c ! p = diag_rows a k c ! ((p div m) * length a + p mod m)"
    using assms by (simp add: is_mat_length)
  also have "\<dots> = replicate ((p div m) * k) 0 @ a ! (p mod m) @ replicate ((c - 1 - p div m) * k) 0"
    using b assms by (intro nth_diag_rows) (simp_all add: is_mat_length)
  finally have row: "diag_rows a k c ! p
      = replicate ((p div m) * k) 0 @ a ! (p mod m) @ replicate ((c - 1 - p div m) * k) 0" .
  from assms b(1) have "length (a ! (p mod m)) = k" by (simp add: is_mat_row)
  then have "(\<Sum>j\<leftarrow>[0..<k * c]. (replicate ((p div m) * k) 0 @ a ! (p mod m)
          @ replicate ((c - 1 - p div m) * k) 0) ! j * u ! j)
      = (\<Sum>l\<leftarrow>[0..<k]. a ! (p mod m) ! l * u ! ((p div m) * k + l))"
    using b(2) by (rule pad_dot)
  then show "mat_vec (diag_rows a k c) u ! p = left_mul a m k c u ! p"
    using p assms by (simp add: nth_mat_vec nth_left_mul row length_diag_rows is_mat_length mult.commute)
qed

lemma block_diag_matrix:
  assumes "is_mat m k a" and "0 < m" and "0 < c"
  shows "block_diag c (Matrix a) = Inr (Matrix (diag_rows a k c))"
  using assms by (simp add: block_diag_def block_rows_def diag_rows_def ncols_is_mat Let_def)

lemma block_diag_returns: "0 < c \<Longrightarrow> \<exists>rep. block_diag c b = Inr rep"
  by (simp add: block_diag_def Let_def)

lemma left_mul_single:
  assumes "length u = c"
  shows "left_mul [[x]] (Suc 0) (Suc 0) c u = map ((*) x) u"
  using assms by (intro nth_equalityI) (simp_all add: nth_left_mul)

lemma mat_vec_scale:
  assumes "is_mat n (length v) b"
  shows "mat_vec (scale x b) v = map ((*) x) (mat_vec b v)"
proof (rule nth_equalityI)
  show "length (mat_vec (scale x b) v) = length (map ((*) x) (mat_vec b v))"
    by (simp add: scale_def)
next
  fix i assume "i < length (mat_vec (scale x b) v)"
  then have i: "i < length b" by (simp add: scale_def)
  with assms have row: "length (b ! i) = length v" by (simp add: is_mat_def list_all_length)
  have "(\<Sum>k\<leftarrow>[0..<length v]. map ((*) x) (b ! i) ! k * v ! k)
      = (\<Sum>k\<leftarrow>[0..<length v]. x * (b ! i ! k * v ! k))"
    using row by (intro sum_list_cong_upt) simp
  also have "\<dots> = x * (\<Sum>k\<leftarrow>[0..<length v]. b ! i ! k * v ! k)"
    by (rule sum_list_const_mult)
  finally show "mat_vec (scale x b) v ! i = map ((*) x) (mat_vec b v) ! i"
    using i by (simp add: nth_mat_vec scale_def)
qed

lemma is_mat_scale: "is_mat r c b \<Longrightarrow> is_mat r c (scale x b)"
  by (simp add: is_mat_def scale_def list_all_iff)

lemma vec_scale:
  assumes "is_mat r c b"
  shows "vec r c (scale x b) = map ((*) x) (vec r c b)"
proof (rule nth_equalityI)
  show "length (vec r c (scale x b)) = length (map ((*) x) (vec r c b))" by simp
next
  fix p assume "p < length (vec r c (scale x b))"
  then have p: "p < r * c" by simp
  then have "p mod r < r" "p div r < c" by (rule index_bounds)+
  with assms p show "vec r c (scale x b) ! p = map ((*) x) (vec r c b) ! p"
    by (simp add: nth_vec scale_def is_mat_length is_mat_row)
qed

lemma vec_scale_column:
  assumes "is_mat m (Suc 0) a"
  shows "vec m (Suc 0) (scale y a) = left_mul a m (Suc 0) (Suc 0) [y]"
proof (rule nth_equalityI)
  show "length (vec m (Suc 0) (scale y a)) = length (left_mul a m (Suc 0) (Suc 0) [y])" by simp
next
  fix p assume "p < length (vec m (Suc 0) (scale y a))"
  then have p: "p < m" by simp
  with assms have "length (a ! p) = Suc 0" by (simp add: is_mat_row)
  with assms p show "vec m (Suc 0) (scale y a) ! p = left_mul a m (Suc 0) (Suc 0) [y] ! p"
    by (simp add: nth_vec nth_left_mul scale_def is_mat_length)
qed

lemma diag_rows_one: "diag_rows a k (Suc 0) = a"
proof -
  have "map ((@) []) a = a" by (induction a) simp_all
  then show ?thesis by (simp add: diag_rows_def)
qed

lemma is_scalar_matrix:
  assumes "is_mat m k a" and "0 < m"
  shows "is_scalar (Matrix a) \<longleftrightarrow> m = 1 \<and> k = 1"
  using assms by (auto simp: is_mat_length ncols_is_mat)

lemma mat_vec_mat_mul:
  assumes d: "is_mat r n d" and b: "is_mat n w b" and x: "length x = w" and n: "0 < n"
  shows "mul_block (Matrix d) (Matrix b) = Inr (Matrix (mat_mul d b))"
    and "is_mat r w (mat_mul d b)"
    and "mat_vec (mat_mul d b) x = mat_vec d (mat_vec b x)"
proof -
  from d b show "mul_block (Matrix d) (Matrix b) = Inr (Matrix (mat_mul d b))"
    by (simp add: is_mat_def)
  have mm: "mat_mul d b = mat r w (\<lambda>i j. (\<Sum>l\<leftarrow>[0..<n]. d ! i ! l * b ! l ! j))"
    using d b n by (rule mat_mul_mat)
  then show "is_mat r w (mat_mul d b)" by simp
  from d have "map (\<lambda>i. d ! i) [0..<r] = d"
    using map_nth [of d] by (simp add: is_mat_length)
  with mat_vec_assoc [of x w b n r d] x b show "mat_vec (mat_mul d b) x = mat_vec d (mat_vec b x)"
    by (simp add: mm is_mat_length)
qed

lemma mul_term_constant:
  assumes L: "is_mat m k (block_rows L)" and pos: "0 < m" "0 < k" "0 < c"
    and B: "is_mat k c (block_rows B)"
  shows "\<exists>P. mul_term c (i0, lsz, L) (CONSTANT_ID, sz, B) = Inr (CONSTANT_ID, sz, P)
           \<and> is_mat m c (block_rows P)
           \<and> vec m c (block_rows P) = left_mul (block_rows L) m k c (vec k c (block_rows B))"
proof -
  from pos(3) obtain rep where rep: "block_diag c L = Inr rep" using block_diag_returns by blast
  show ?thesis
  proof (cases L)
    case (Scalar x)
    with L have mk: "m = 1" "k = 1" by (auto simp: block_rows_def is_mat_def)
    show ?thesis
    proof (cases B)
      case (Scalar y)
      with B mk have "c = 1" by (auto simp: block_rows_def is_mat_def)
      with \<open>L = Scalar x\<close> Scalar mk rep show ?thesis
        by (simp add: block_rows_def is_mat_def left_mul_single)
    next
      case (Matrix K)
      with B mk have K: "is_mat 1 c K" by (simp add: block_rows_def)
      with \<open>L = Scalar x\<close> Matrix mk rep show ?thesis
        by (simp add: block_rows_def is_mat_scale vec_scale left_mul_single)
    qed
  next
    case (Matrix A)
    with L have A: "is_mat m k A" by (simp add: block_rows_def)
    show ?thesis
    proof (cases B)
      case (Scalar y)
      with B have kc: "k = 1" "c = 1" by (auto simp: block_rows_def is_mat_def)
      with A \<open>L = Matrix A\<close> Scalar rep show ?thesis
        by (simp add: block_rows_def is_mat_scale vec_scale_column)
    next
      case (Matrix K)
      with B have K: "is_mat k c K" by (simp add: block_rows_def)
      have mm: "mat_mul A K = mat m c (\<lambda>i j. (\<Sum>l\<leftarrow>[0..<k]. A ! i ! l * K ! l ! j))"
        using A K pos(2) by (rule mat_mul_mat)
      have "mul_block (Matrix A) (Matrix K) = Inr (Matrix (mat_mul A K))"
        using A K by (simp add: is_mat_def)
      with \<open>L = Matrix A\<close> Matrix rep show ?thesis
        by (simp add: block_rows_def mm left_mul_vec)
    qed
  qed
qed

lemma mul_term_variable:
  assumes L: "is_mat m k (block_rows L)" and pos: "0 < m" "0 < k" "0 < c"
    and side: "\<And>a. L = Matrix a \<Longrightarrow> m = 1 \<Longrightarrow> k = 1 \<Longrightarrow> c = 1"
    and M: "is_mat (k * c) n M" and x: "length x = n" and inv: "sz = (1, 1) \<Longrightarrow> c = 1"
  shows "\<exists>P. mul_term c (i0, lsz, L) (Id v, sz, Matrix M) = Inr (Id v, sz, Matrix P)
           \<and> is_mat (m * c) n P
           \<and> mat_vec P x = left_mul (block_rows L) m k c (mat_vec M x)"
proof -
  from pos(3) obtain rep where rep: "block_diag c L = Inr rep" using block_diag_returns by blast
  from M have lu: "length (mat_vec M x) = k * c" by (simp add: is_mat_length)
  show ?thesis
  proof (cases L)
    case (Scalar x0)
    with L have mk: "m = 1" "k = 1" by (auto simp: block_rows_def is_mat_def)
    from M x have "mat_vec (scale x0 M) x = map ((*) x0) (mat_vec M x)"
      by (intro mat_vec_scale) simp
    with Scalar mk rep M lu show ?thesis
      by (simp add: block_rows_def is_mat_scale left_mul_single)
  next
    case (Matrix A)
    with L have A: "is_mat m k A" by (simp add: block_rows_def)
    from A pos have D: "block_diag c (Matrix A) = Inr (Matrix (diag_rows A k c))"
      by (intro block_diag_matrix) simp_all
    have dm: "is_mat (m * c) (k * c) (diag_rows A k c)"
      using A by (rule is_mat_diag_rows)
    from pos have kc: "0 < k * c" by simp
    note prod = mat_vec_mat_mul [OF dm M x kc]
    have tv: "mat_vec (mat_mul (diag_rows A k c) M) x = left_mul A m k c (mat_vec M x)"
      using prod(3) mat_vec_diag_rows [OF A lu] by simp
    show ?thesis
    proof (cases "c = 1")
      case True
      with Matrix D prod tv show ?thesis
        by (simp add: block_rows_def diag_rows_one)
    next
      case False
      with side Matrix have "\<not> (m = 1 \<and> k = 1)" by blast
      with A pos(1) have ns: "\<not> is_scalar (Matrix A)" using is_scalar_matrix [of m k A] by blast
      from False inv have "sz \<noteq> (1, 1)" by blast
      with Matrix D prod tv ns False show ?thesis
        by (auto simp: block_rows_def)
    qed
  qed
qed

lemma mul_term_good:
  assumes L: "is_mat m k (block_rows L)" and pos: "0 < m" "0 < k" "0 < c"
    and side: "\<And>a. L = Matrix a \<Longrightarrow> m = 1 \<Longrightarrow> k = 1 \<Longrightarrow> c = 1 \<or> fst t = CONSTANT_ID"
    and t: "good env (k, c) t"
  shows "\<exists>t'. mul_term c (i0, lsz, L) t = Inr t' \<and> good env (m, c) t'
           \<and> term_vec env (m, c) t' = left_mul (block_rows L) m k c (term_vec env (k, c) t)"
proof -
  obtain i vr vc B where tt: "t = (i, (vr, vc), B)" by (cases t) auto
  show ?thesis
  proof (cases i)
    case CONSTANT_ID
    with t tt have "is_mat k c (block_rows B)" by simp
    from mul_term_constant [OF L pos this, where sz = "(vr, vc)" and ?i0.0 = i0 and lsz = lsz] CONSTANT_ID tt show ?thesis
      by auto
  next
    case (Id v)
    with t tt obtain M where M: "B = Matrix M" "is_mat (k * c) (vr * vc) M"
        "is_mat vr vc (env v)" "vr = 1 \<and> vc = 1 \<longrightarrow> c = 1"
      by (auto simp: block_rows_def)
    have "length (vec vr vc (env v)) = vr * vc" by simp
    moreover from side tt Id have "\<And>a. L = Matrix a \<Longrightarrow> m = 1 \<Longrightarrow> k = 1 \<Longrightarrow> c = 1" by auto
    ultimately have "\<exists>P. mul_term c (i0, lsz, L) (Id v, (vr, vc), Matrix M) = Inr (Id v, (vr, vc), Matrix P)
           \<and> is_mat (m * c) (vr * vc) P
           \<and> mat_vec P (vec vr vc (env v)) = left_mul (block_rows L) m k c (mat_vec M (vec vr vc (env v)))"
      using M(4) by (intro mul_term_variable [OF L pos _ M(2)]) auto
    then
    obtain P where "mul_term c (i0, lsz, L) (Id v, (vr, vc), Matrix M)
          = Inr (Id v, (vr, vc), Matrix P)" "is_mat (m * c) (vr * vc) P"
        "mat_vec P (vec vr vc (env v)) = left_mul (block_rows L) m k c (mat_vec M (vec vr vc (env v)))"
      by auto
    with Id tt M show ?thesis by (auto simp: block_rows_def)
  qed
qed

subsection \<open>Nodes that compile to their value\<close>

definition compiles_to :: "assignment \<Rightarrow> lin_op \<Rightarrow> coeff list \<Rightarrow> bool" where
  \<comment> \<open>the node compiles to \<open>cs\<close>, whose contributions add up to the vectorized value\<close>
  "compiles_to env n cs =
     (get_coefficients n = returns cs \<and> list_all (good env (size_op n)) cs
      \<and> total_vec env (size_op n) cs = vec (fst (size_op n)) (snd (size_op n)) (evaluate env n)
      \<and> is_mat (fst (size_op n)) (snd (size_op n)) (evaluate env n))"

lemma compiles_leaf_variable:
  assumes "is_mat r c (env v)"
  shows "compiles_to env (LinOp VARIABLE (r, c) as (VarId v)) [(Id v, (r, c), Matrix (eye (r * c)))]"
  using assms
  by (simp add: compiles_to_def get_coefficients.simps block_rows_def is_mat_eye mat_vec_eye vadd_zero)

lemma compiles_leaf_constant:
  assumes "is_mat r c (block_rows b)"
  shows "compiles_to env (LinOp PARAM (r, c) as (Param b)) [(CONSTANT_ID, (r, c), b)]"
    and "t \<in> {SCALAR_CONST, DENSE_CONST, SPARSE_CONST} \<Longrightarrow>
         compiles_to env (LinOp t (r, c) as (Value b)) [(CONSTANT_ID, (r, c), b)]"
  using assms
  by (auto simp: compiles_to_def get_coefficients.simps vadd_zero)

lemma compiles_neg:
  assumes "compiles_to env a cs" and "size_op a = (r, c)"
  shows "compiles_to env (LinOp NEG (r, c) (a # rest) d) (map neg_term cs)"
proof -
  from assms have a: "get_coefficients a = returns cs" "list_all (good env (r, c)) cs"
      "total_vec env (r, c) cs = vec r c (evaluate env a)" "is_mat r c (evaluate env a)"
    by (simp_all add: compiles_to_def)
  from a(1) have "get_coefficients (LinOp NEG (r, c) (a # rest) d) = returns (map neg_term cs)"
    by (simp add: get_coefficients_NEG neg_coeffs.simps)
  moreover from a(2) have "list_all (good env (r, c)) (map neg_term cs)" by (rule all_good_neg)
  moreover from a(2, 3) have "total_vec env (r, c) (map neg_term cs)
      = vec r c (evaluate env (LinOp NEG (r, c) (a # rest) d))"
    by (simp add: total_vec_neg vec_mat_neg)
  ultimately show ?thesis by (simp add: compiles_to_def)
qed

lemma compiles_sum_entries:
  assumes "compiles_to env a cs" and "size_op a = (r, c)" and "0 < r" and "0 < c"
  shows "\<exists>cs'. compiles_to env (LinOp SUM_ENTRIES (1, 1) (a # rest) d) cs'"
proof -
  from assms have a: "get_coefficients a = returns cs" "list_all (good env (r, c)) cs"
      "total_vec env (r, c) cs = vec r c (evaluate env a)" "is_mat r c (evaluate env a)"
    by (simp_all add: compiles_to_def)
  from map_result_sum_entries [OF assms(3, 4) a(2)] obtain cs' where
    cs': "map_result sum_entries_term cs = Inr cs'" "list_all (good env (1, 1)) cs'"
      "total_vec env (1, 1) cs' = [sum_list (total_vec env (r, c) cs)]"
    by blast
  from a(1) cs'(1) have "get_coefficients (LinOp SUM_ENTRIES (1, 1) (a # rest) d) = returns cs'"
    by (simp add: get_coefficients_SUM_ENTRIES sum_entries_coeffs.simps)
  moreover from a(3, 4) cs'(3) have "total_vec env (1, 1) cs'
      = vec 1 1 (evaluate env (LinOp SUM_ENTRIES (1, 1) (a # rest) d))"
    by (simp add: sum_entries_vec)
  moreover have "is_mat 1 1 (evaluate env (LinOp SUM_ENTRIES (1, 1) (a # rest) d))"
    by (simp add: is_mat_def)
  ultimately show ?thesis using cs'(2) by (auto simp: compiles_to_def)
qed

lemma compiles_transpose:
  assumes "is_mat r c (env v)"
  shows "compiles_to env (LinOp TRANSPOSE (c, r) (LinOp VARIABLE (r, c) as (VarId v) # rest) d)
           [(Id v, (r, c), Matrix (transpose_block r c))]"
proof -
  have "get_coefficients (LinOp VARIABLE (r, c) as (VarId v))
      = returns [(Id v, (r, c), Matrix (eye (r * c)))]"
    by (simp add: get_coefficients.simps)
  then have "get_coefficients (LinOp TRANSPOSE (c, r) (LinOp VARIABLE (r, c) as (VarId v) # rest) d)
      = returns [(Id v, (r, c), Matrix (transpose_block r c))]"
    by (simp add: get_coefficients_TRANSPOSE transpose_coeffs.simps)
  moreover have "is_mat (c * r) (r * c) (transpose_block r c)"
    using is_mat_transpose_block [of r c] by (simp add: mult.commute)
  moreover have "vadd (mat_vec (transpose_block r c) (vec r c (env v))) (replicate (c * r) 0)
      = vec c r (mat c r (\<lambda>i j. env v ! j ! i))"
    using assms by (simp add: mat_vec_transpose_block vadd_zero)
  ultimately show ?thesis
    using assms by (simp add: compiles_to_def block_rows_def)
qed

lemma list_all_ex_list_all2:
  "list_all (\<lambda>a. \<exists>b. P a b) xs \<Longrightarrow> \<exists>ys. list_all2 P xs ys"
proof (induction xs)
  case Nil
  show ?case by simp
next
  case (Cons x xs)
  then obtain y ys where "P x y" "list_all2 P xs ys" by auto
  then have "list_all2 P (x # xs) (y # ys)" by simp
  then show ?case by blast
qed

lemma compiles_children:
  "list_all2 (\<lambda>a cs. compiles_to env a cs \<and> size_op a = (r, c)) as css \<Longrightarrow>
     map get_coefficients as = map returns css
     \<and> list_all (list_all (good env (r, c))) css
     \<and> foldr (\<lambda>cs acc. vadd (total_vec env (r, c) cs) acc) css z
         = foldr (\<lambda>m acc. vadd (vec r c m) acc) (map (evaluate env) as) z"
  by (induction rule: list_all2_induct) (auto simp: compiles_to_def)

lemma compiles_sum:
  assumes "list_all (\<lambda>a. \<exists>cs. compiles_to env a cs \<and> size_op a = (r, c)) as"
  shows "\<exists>cs. compiles_to env (LinOp SUM_OP (r, c) as d) cs"
proof -
  from assms obtain css where "list_all2 (\<lambda>a cs. compiles_to env a cs \<and> size_op a = (r, c)) as css"
    using list_all_ex_list_all2 [of "\<lambda>a cs. compiles_to env a cs \<and> size_op a = (r, c)" as] by blast
  from compiles_children [OF this, of "replicate (r * c) 0"]
  have css: "map get_coefficients as = map returns css"
      "list_all (list_all (good env (r, c))) css"
      "foldr (\<lambda>cs acc. vadd (total_vec env (r, c) cs) acc) css (replicate (r * c) 0)
         = foldr (\<lambda>m acc. vadd (vec r c m) acc) (map (evaluate env) as) (replicate (r * c) 0)"
    by simp_all
  from css(1) have "get_coefficients (LinOp SUM_OP (r, c) as d) = returns (concat css)"
    by (simp add: get_coefficients_SUM_OP sum_loop_returns)
  moreover from css(2) have "list_all (good env (r, c)) (concat css)"
    by (auto simp: list_all_iff)
  moreover from css(2, 3) have "total_vec env (r, c) (concat css)
      = vec r c (evaluate env (LinOp SUM_OP (r, c) as d))"
    by (simp add: total_vec_concat foldr_vadd_vec)
  ultimately have "compiles_to env (LinOp SUM_OP (r, c) as d) (concat css)"
    by (simp add: compiles_to_def)
  then show ?thesis ..
qed

lemma product_entries_vec:
  "vec m c (mat m c (\<lambda>i j. if m = Suc 0 \<and> k = Suc 0 then a ! 0 ! 0 * x ! i ! j
                             else (\<Sum>l\<leftarrow>[0..<k]. a ! i ! l * x ! l ! j)))
     = left_mul a m k c (vec k c x)"
proof -
  have "vec m c (mat m c (\<lambda>i j. if m = Suc 0 \<and> k = Suc 0 then a ! 0 ! 0 * x ! i ! j
                             else (\<Sum>l\<leftarrow>[0..<k]. a ! i ! l * x ! l ! j)))
      = vec m c (mat m c (\<lambda>i j. (\<Sum>l\<leftarrow>[0..<k]. a ! i ! l * x ! l ! j)))"
  proof (rule vec_cong)
    fix i j assume "i < m" "j < c"
    then show "mat m c (\<lambda>i j. if m = Suc 0 \<and> k = Suc 0 then a ! 0 ! 0 * x ! i ! j
                             else (\<Sum>l\<leftarrow>[0..<k]. a ! i ! l * x ! l ! j)) ! i ! j
        = mat m c (\<lambda>i j. (\<Sum>l\<leftarrow>[0..<k]. a ! i ! l * x ! l ! j)) ! i ! j"
      by (cases "m = Suc 0 \<and> k = Suc 0") auto
  qed
  then show ?thesis by (simp only: left_mul_vec)
qed

lemma mul_inner_map_result:
  "mul_inner cols lh rhs new
     = (case map_result (mul_term cols lh) rhs of Inl e \<Rightarrow> Inl e | Inr ts \<Rightarrow> Inr (new @ ts))"
  by (induction rhs arbitrary: new) (simp_all split: sum.splits)

lemma map_result_mul_term:
  assumes L: "is_mat m k (block_rows L)" and pos: "0 < m" "0 < k" "0 < c"
  shows "list_all (good env (k, c)) cs \<Longrightarrow>
     list_all (\<lambda>t. \<forall>x. L = Matrix x \<longrightarrow> m = 1 \<longrightarrow> k = 1 \<longrightarrow> c = 1 \<or> fst t = CONSTANT_ID) cs \<Longrightarrow>
     \<exists>cs'. map_result (mul_term c (i0, lsz, L)) cs = Inr cs'
       \<and> list_all (good env (m, c)) cs'
       \<and> total_vec env (m, c) cs' = left_mul (block_rows L) m k c (total_vec env (k, c) cs)"
proof (induction cs)
  case Nil
  show ?case by (simp add: left_mul_zero)
next
  case (Cons t cs)
  then obtain cs' where cs': "map_result (mul_term c (i0, lsz, L)) cs = Inr cs'"
      "list_all (good env (m, c)) cs'"
      "total_vec env (m, c) cs' = left_mul (block_rows L) m k c (total_vec env (k, c) cs)"
    by auto
  from Cons.prems have t: "good env (k, c) t" by simp
  from Cons.prems have side: "\<And>x. L = Matrix x \<Longrightarrow> m = 1 \<Longrightarrow> k = 1 \<Longrightarrow> c = 1 \<or> fst t = CONSTANT_ID"
    by simp
  from mul_term_good [OF L pos side t] obtain t' where
    t': "mul_term c (i0, lsz, L) t = Inr t'" "good env (m, c) t'"
      "term_vec env (m, c) t' = left_mul (block_rows L) m k c (term_vec env (k, c) t)"
    by blast
  from t have lt: "length (term_vec env (k, c) t) = k * c"
    using good_sized [of env "(k, c)" t] by (simp add: sized_def)
  from Cons.prems have lc: "length (total_vec env (k, c) cs) = k * c"
    using length_total_vec [of env "(k, c)" cs] by (simp add: good_all_sized)
  from cs' t' show ?case
    by (simp add: left_mul_vadd [OF lt lc])
qed

lemma compiles_single_constant:
  assumes "compiles_to env a [(CONSTANT_ID, lsz, L)]" and "size_op a = (m, k)"
  shows "evaluate env a = block_rows L" and "is_mat m k (block_rows L)"
proof -
  from assms have g: "is_mat m k (block_rows L)" and e: "is_mat m k (evaluate env a)"
    and v: "vec m k (block_rows L) = vec m k (evaluate env a)"
    by (simp_all add: compiles_to_def vadd_zero)
  from v have "unvec m k (vec m k (block_rows L)) = unvec m k (vec m k (evaluate env a))" by simp
  with g e show "evaluate env a = block_rows L" by (simp add: unvec_vec)
  from g show "is_mat m k (block_rows L)" .
qed

lemma compiles_mul:
  assumes a: "compiles_to env a [(CONSTANT_ID, lsz, L)]" "size_op a = (m, k)"
    and pos: "0 < m" "0 < k" "0 < c"
    and b: "compiles_to env b cs" "size_op b = (k, c)"
    and side: "list_all (\<lambda>t. \<forall>x. L = Matrix x \<longrightarrow> m = 1 \<longrightarrow> k = 1 \<longrightarrow> c = 1 \<or> fst t = CONSTANT_ID) cs"
  shows "\<exists>cs'. compiles_to env (LinOp MUL (m, c) (a # b # rest) d) cs'"
proof -
  note leaf = compiles_single_constant [OF a]
  from a(1) have ga: "get_coefficients a = returns [(CONSTANT_ID, lsz, L)]"
    by (simp add: compiles_to_def)
  from b have cs: "get_coefficients b = returns cs" "list_all (good env (k, c)) cs"
      "total_vec env (k, c) cs = vec k c (evaluate env b)" "is_mat k c (evaluate env b)"
    by (simp_all add: compiles_to_def)
  from map_result_mul_term [OF leaf(2) pos cs(2) side] obtain cs' where
    cs': "map_result (mul_term c (CONSTANT_ID, lsz, L)) cs = Inr cs'"
      "list_all (good env (m, c)) cs'"
      "total_vec env (m, c) cs' = left_mul (block_rows L) m k c (total_vec env (k, c) cs)"
    by blast
  have "mul_loop c [(CONSTANT_ID, lsz, L)] cs = returns cs'"
    using cs'(1) by (simp add: mul_loop_def mul_inner_map_result)
  with ga cs(1) have "get_coefficients (LinOp MUL (m, c) (a # b # rest) d) = returns cs'"
    by (simp add: get_coefficients_MUL mul_coeffs.simps)
  moreover have "total_vec env (m, c) cs'
      = vec m c (evaluate env (LinOp MUL (m, c) (a # b # rest) d))"
    using cs'(3) cs(3) a(2) leaf(1) by (simp add: product_entries_vec)
  ultimately show ?thesis
    using cs'(2) a(2) by (auto simp: compiles_to_def)
qed

lemma left_mul_zero_left:
  assumes "\<And>i l. i < m \<Longrightarrow> l < k \<Longrightarrow> a ! i ! l = 0"
  shows "left_mul a m k c u = replicate (m * c) 0"
proof (rule nth_equalityI)
  show "length (left_mul a m k c u) = length (replicate (m * c) (0 :: real))" by simp
next
  fix p assume "p < length (left_mul a m k c u)"
  then have p: "p < m * c" by simp
  then have pm: "p mod m < m" by (rule index_bounds)
  have "(\<Sum>l\<leftarrow>[0..<k]. a ! (p mod m) ! l * u ! ((p div m) * k + l)) = (\<Sum>l\<leftarrow>[0..<k]. 0)"
    by (rule sum_list_cong_upt) (simp add: assms pm)
  with p show "left_mul a m k c u ! p = replicate (m * c) 0 ! p"
    by (simp add: nth_left_mul)
qed

lemma compiles_mul_empty:
  assumes a: "compiles_to env a []" "size_op a = (m, k)"
    and b: "compiles_to env b cs" "size_op b = (k, c)"
  shows "compiles_to env (LinOp MUL (m, c) (a # b # rest) d) []"
proof -
  from a have ga: "get_coefficients a = returns []"
    and z: "vec m k (evaluate env a) = replicate (m * k) 0"
    by (simp_all add: compiles_to_def)
  from b have gb: "get_coefficients b = returns cs" by (simp add: compiles_to_def)
  have zero: "evaluate env a ! i ! l = 0" if "i < m" "l < k" for i l
  proof -
    from that have q: "l * m + i < m * k" "(l * m + i) mod m = i" "(l * m + i) div m = l"
      by (rule column_position)+
    from q(1) have "vec m k (evaluate env a) ! (l * m + i) = 0"
      by (simp only: z nth_replicate)
    with q show ?thesis by (simp add: nth_vec)
  qed
  from ga gb have "get_coefficients (LinOp MUL (m, c) (a # b # rest) d) = returns []"
    by (simp add: get_coefficients_MUL mul_coeffs.simps mul_loop_def)
  moreover have "vec m c (evaluate env (LinOp MUL (m, c) (a # b # rest) d)) = replicate (m * c) 0"
    using a(2) by (simp add: product_entries_vec left_mul_zero_left [OF zero])
  ultimately show ?thesis using a(2) by (simp add: compiles_to_def)
qed

lemma scaled_entries_vec:
  "vec r c (mat r c (\<lambda>i j. s * x ! i ! j)) = map ((*) s) (vec r c x)"
  unfolding vec_mat by (simp add: vec_def)

lemma scale_vadd: "map ((*) (s :: real)) (vadd u v) = vadd (map ((*) s) u) (map ((*) s) v)"
  by (induction u v rule: list_induct2') (simp_all add: vadd_def distrib_left)

lemma mul_term_number:
  assumes t: "good env (r, c) t" and c: "0 < c"
  shows "\<exists>t'. mul_term c (i0, lsz, Scalar s) t = Inr t' \<and> good env (r, c) t'
           \<and> term_vec env (r, c) t' = map ((*) s) (term_vec env (r, c) t)"
proof -
  from c obtain rep where rep: "block_diag c (Scalar s) = Inr rep" using block_diag_returns by blast
  obtain i vr vc b where tt: "t = (i, (vr, vc), b)" by (cases t) auto
  show ?thesis
  proof (cases i)
    case CONSTANT_ID
    with t tt have b: "is_mat r c (block_rows b)" by simp
    show ?thesis
    proof (cases b)
      case (Scalar y)
      with b have "r = 1" "c = 1" by (auto simp: block_rows_def is_mat_def)
      with Scalar CONSTANT_ID tt rep show ?thesis
        by (simp add: block_rows_def is_mat_def)
    next
      case (Matrix K)
      with b have "is_mat r c K" by (simp add: block_rows_def)
      with Matrix CONSTANT_ID tt rep show ?thesis
        by (simp add: block_rows_def is_mat_scale vec_scale)
    qed
  next
    case (Id v)
    with t tt obtain M where M: "b = Matrix M" "is_mat (r * c) (vr * vc) M"
        "is_mat vr vc (env v)" "vr = 1 \<and> vc = 1 \<longrightarrow> c = 1"
      by (auto simp: block_rows_def)
    have "mat_vec (scale s M) (vec vr vc (env v)) = map ((*) s) (mat_vec M (vec vr vc (env v)))"
      using M(2) by (intro mat_vec_scale) simp
    with M Id tt rep show ?thesis
      by (simp add: block_rows_def is_mat_scale)
  qed
qed

lemma map_result_mul_number:
  assumes c: "0 < c"
  shows "list_all (good env (r, c)) cs \<Longrightarrow>
     \<exists>cs'. map_result (mul_term c (i0, lsz, Scalar s)) cs = Inr cs'
       \<and> list_all (good env (r, c)) cs'
       \<and> total_vec env (r, c) cs' = map ((*) s) (total_vec env (r, c) cs)"
proof (induction cs)
  case Nil
  show ?case by simp
next
  case (Cons t cs)
  then obtain cs' where cs': "map_result (mul_term c (i0, lsz, Scalar s)) cs = Inr cs'"
      "list_all (good env (r, c)) cs'"
      "total_vec env (r, c) cs' = map ((*) s) (total_vec env (r, c) cs)"
    by auto
  from Cons.prems have t: "good env (r, c) t" by simp
  from mul_term_number [OF t c] obtain t' where
    t': "mul_term c (i0, lsz, Scalar s) t = Inr t'" "good env (r, c) t'"
      "term_vec env (r, c) t' = map ((*) s) (term_vec env (r, c) t)"
    by blast
  from cs' t' show ?case by (simp add: scale_vadd)
qed

lemma compiles_multiple:
  assumes a: "compiles_to env a [(CONSTANT_ID, lsz, Scalar s)]" "size_op a = (1, 1)"
    and b: "compiles_to env b cs" "size_op b = (r, c)" and c: "0 < c"
  shows "\<exists>cs'. compiles_to env (LinOp MUL (r, c) (a # b # rest) d) cs'"
proof -
  from compiles_single_constant(1) [OF a] have ea: "evaluate env a = [[s]]"
    by (simp add: block_rows_def)
  from a(1) have ga: "get_coefficients a = returns [(CONSTANT_ID, lsz, Scalar s)]"
    by (simp add: compiles_to_def)
  from b have cs: "get_coefficients b = returns cs" "list_all (good env (r, c)) cs"
      "total_vec env (r, c) cs = vec r c (evaluate env b)" "is_mat r c (evaluate env b)"
    by (simp_all add: compiles_to_def)
  from map_result_mul_number [OF c cs(2)] obtain cs' where
    cs': "map_result (mul_term c (CONSTANT_ID, lsz, Scalar s)) cs = Inr cs'"
      "list_all (good env (r, c)) cs'"
      "total_vec env (r, c) cs' = map ((*) s) (total_vec env (r, c) cs)"
    by blast
  have "mul_loop c [(CONSTANT_ID, lsz, Scalar s)] cs = returns cs'"
    using cs'(1) by (simp add: mul_loop_def mul_inner_map_result)
  with ga cs(1) have "get_coefficients (LinOp MUL (r, c) (a # b # rest) d) = returns cs'"
    by (simp add: get_coefficients_MUL mul_coeffs.simps)
  moreover have "total_vec env (r, c) cs'
      = vec r c (evaluate env (LinOp MUL (r, c) (a # b # rest) d))"
    using cs'(3) cs(3) a(2) ea by (simp add: scaled_entries_vec)
  ultimately show ?thesis
    using cs'(2) a(2) by (auto simp: compiles_to_def)
qed

lemma compiles_multiple_empty:
  assumes a: "compiles_to env a []" "size_op a = (1, 1)"
    and b: "compiles_to env b cs" "size_op b = (r, c)"
  shows "compiles_to env (LinOp MUL (r, c) (a # b # rest) d) []"
proof -
  from a have ga: "get_coefficients a = returns []"
    and z: "vec 1 1 (evaluate env a) = replicate 1 0"
    by (simp_all add: compiles_to_def)
  from b have gb: "get_coefficients b = returns cs" by (simp add: compiles_to_def)
  from z have zero: "evaluate env a ! 0 ! 0 = 0" by (simp add: vec_def)
  from ga gb have "get_coefficients (LinOp MUL (r, c) (a # b # rest) d) = returns []"
    by (simp add: get_coefficients_MUL mul_coeffs.simps mul_loop_def)
  moreover have "vec r c (evaluate env (LinOp MUL (r, c) (a # b # rest) d)) = replicate (r * c) 0"
    using a(2) zero by (simp add: vec_mat map_replicate_const)
  ultimately show ?thesis using a(2) by (simp add: compiles_to_def)
qed

lemma mul_outer_aliased_empty: "mul_outer_aliased c lh [] = returns []"
  by (induction lh) (simp_all add: mul_inner_aliased.simps)

lemma mul_loop_empty: "mul_loop c lh [] = returns []"
  by (cases lh) (simp_all add: mul_loop_def mul_outer_aliased_empty)

lemma compiles_product_zero:
  assumes a: "get_coefficients a = returns lh" "size_op a = (m, k)"
    and b: "compiles_to env b []" "size_op b = (k', c)"
    and sh: "(m, k) = (r, k') \<or> (m, k) = (1, 1) \<and> k' = r"
  shows "compiles_to env (LinOp MUL (r, c) (a # b # rest) d) []"
proof -
  from b have gb: "get_coefficients b = returns []"
    and z: "vec k' c (evaluate env b) = replicate (k' * c) 0"
    by (simp_all add: compiles_to_def)
  have zero: "evaluate env b ! l ! j = 0" if "l < k'" "j < c" for l j
  proof -
    from that have q: "j * k' + l < k' * c" "(j * k' + l) mod k' = l" "(j * k' + l) div k' = j"
      by (rule column_position)+
    from q(1) have "vec k' c (evaluate env b) ! (j * k' + l) = 0"
      by (simp only: z nth_replicate)
    with q show ?thesis by (simp add: nth_vec)
  qed
  from a(1) gb have "get_coefficients (LinOp MUL (r, c) (a # b # rest) d) = returns []"
    by (simp add: get_coefficients_MUL mul_coeffs.simps mul_loop_empty)
  moreover have "vec r c (evaluate env (LinOp MUL (r, c) (a # b # rest) d)) = replicate (r * c) 0"
  proof -
    have "vec r c (evaluate env (LinOp MUL (r, c) (a # b # rest) d)) = vec r c (mat r c (\<lambda>i j. 0))"
    proof (rule vec_cong)
      fix i j assume ij: "i < r" "j < c"
      have "(\<Sum>l\<leftarrow>[0..<k]. evaluate env a ! i ! l * evaluate env b ! l ! j) = (\<Sum>l\<leftarrow>[0..<k]. 0)"
        if "k = k'"
        by (rule sum_list_cong_upt) (simp add: zero that ij)
      with ij sh zero [of i j] a(2)
      show "evaluate env (LinOp MUL (r, c) (a # b # rest) d) ! i ! j = mat r c (\<lambda>i j. 0) ! i ! j"
        by auto
    qed
    then show ?thesis by (simp add: vec_mat map_replicate_const)
  qed
  ultimately show ?thesis using a(2) by (simp add: compiles_to_def)
qed

subsection \<open>Slices\<close>

definition rows_sel :: "nat list \<Rightarrow> nat list \<Rightarrow> nat \<Rightarrow> nat list" where
  \<comment> \<open>the positions, in the vectorized operand of \<open>rows\<close> rows, of the entries in the
      rows \<open>is\<close> and columns \<open>js\<close>, column by column\<close>
  "rows_sel is js rows =
     map (\<lambda>p. js ! (p div length is) * rows + is ! (p mod length is)) [0..<length is * length js]"

lemma slice_indices_range:
  assumes "slice_indices s n = Inr is"
  shows "\<exists>P xs. is = map nat (filter P xs) \<and> (\<forall>x \<in> set xs. 0 \<le> x \<and> x < int n) \<and> length xs \<le> n"
proof -
  define st where "st = (case step s of None \<Rightarrow> 1 | Some v \<Rightarrow> v)"
  define wrap where "wrap = (\<lambda>v. if v < 0 then v + int n else v)"
  define cu where "cu = (\<lambda>v. if wrap v < 0 then 0 else if int n < wrap v then int n else wrap v)"
  define cd where "cd = (\<lambda>v. if wrap v < 0 then - 1 else if int n \<le> wrap v then int n - 1 else wrap v)"
  define a where "a = (case start s of None \<Rightarrow> 0 | Some v \<Rightarrow> cu v)"
  define b where "b = (case stop s of None \<Rightarrow> int n | Some v \<Rightarrow> cu v)"
  define a' where "a' = (case start s of None \<Rightarrow> int n - 1 | Some v \<Rightarrow> cd v)"
  define b' where "b' = (case stop s of None \<Rightarrow> - 1 | Some v \<Rightarrow> cd v)"
  have eq: "slice_indices s n =
      (if st = 0 then Inl ValueError
       else if 0 < st then Inr (map nat (filter (\<lambda>i. (i - a) mod st = 0) [a..b - 1]))
       else Inr (map nat (filter (\<lambda>i. (a' - i) mod (- st) = 0) (rev [b' + 1..a']))))"
    unfolding slice_indices_def Let_def st_def wrap_def cu_def cd_def a_def b_def a'_def b'_def
    by (rule refl)
  have cu: "0 \<le> cu v" "cu v \<le> int n" for v by (simp_all add: cu_def)
  have cd: "- 1 \<le> cd v" "cd v \<le> int n - 1" for v by (simp_all add: cd_def)
  have a: "0 \<le> a" using cu(1) by (simp add: a_def split: option.split)
  have b: "b \<le> int n" using cu(2) by (simp add: b_def split: option.split)
  have a': "a' \<le> int n - 1" using cd(2) by (simp add: a'_def split: option.split)
  have b': "- 1 \<le> b'" using cd(1) by (simp add: b'_def split: option.split)
  consider (zero) "st = 0" | (pos) "0 < st" | (neg) "st < 0" by linarith
  then show ?thesis
  proof cases
    case zero
    with assms eq show ?thesis by simp
  next
    case pos
    with assms eq have "is = map nat (filter (\<lambda>i. (i - a) mod st = 0) [a..b - 1])" by simp
    moreover have "\<forall>x \<in> set [a..b - 1]. 0 \<le> x \<and> x < int n" using a b by auto
    moreover have "length [a..b - 1] \<le> n" using a b by simp
    ultimately show ?thesis by blast
  next
    case neg
    with assms eq have "is = map nat (filter (\<lambda>i. (a' - i) mod (- st) = 0) (rev [b' + 1..a']))"
      by simp
    moreover have "\<forall>x \<in> set (rev [b' + 1..a']). 0 \<le> x \<and> x < int n" using a' b' by auto
    moreover have "length (rev [b' + 1..a']) \<le> n" using a' b' by simp
    ultimately show ?thesis by blast
  qed
qed

lemma slice_indices_bound: "slice_indices s n = Inr is \<Longrightarrow> i \<in> set is \<Longrightarrow> i < n"
proof -
  assume "slice_indices s n = Inr is" and i: "i \<in> set is"
  then obtain P xs where "is = map nat (filter P xs)" "\<forall>x \<in> set xs. 0 \<le> x \<and> x < int n"
    using slice_indices_range by blast
  with i obtain x where "i = nat x" "0 \<le> x" "x < int n" by auto
  then show ?thesis by linarith
qed

lemma slice_indices_length: "slice_indices s n = Inr is \<Longrightarrow> length is \<le> n"
proof -
  assume "slice_indices s n = Inr is"
  then obtain P xs where "is = map nat (filter P xs)" "length xs \<le> n"
    using slice_indices_range by blast
  then show ?thesis using le_trans [OF length_filter_le [of P xs]] by simp
qed

lemma map_nat_upto: "map nat [0..int n - 1] = [0..<n]"
proof (induction n)
  case 0
  show ?case by simp
next
  case (Suc n)
  have "[0..int (Suc n) - 1] = [0..int n - 1] @ [int n]"
    using upto_rec2 [of 0 "int n"] by simp
  with Suc show ?case by simp
qed

lemma slice_indices_whole: "whole s \<Longrightarrow> slice_indices s n = Inr [0..<n]"
  by (auto simp: whole_def slice_indices_def Let_def map_nat_upto)

lemma whole_slice_all: "whole slice_all"
  by (simp add: whole_def slice_all_def)

lemma offset_slice_whole: "whole s \<Longrightarrow> offset_slice s k = s"
  by (simp add: whole_def offset_slice_def)

lemma offset_slice_zero: "offset_slice s 0 = s"
  by (simp add: offset_slice_def option.map_ident)

lemma index_rows_only:
  assumes B: "is_mat N n B" and N: "0 < N" and R: "slice_indices s N = Inr R"
  shows "index (Matrix B) (s, slice_all) = Inr (Matrix (map (\<lambda>q. B ! q) R))"
    and "is_mat (length R) n (map (\<lambda>q. B ! q) R)"
proof -
  from B have lB: "length B = N" by (rule is_mat_length)
  have row: "length (B ! q) = n" if "q \<in> set R" for q
    using is_mat_row [OF B] slice_indices_bound [OF R that] by simp
  have "map (\<lambda>r. map (\<lambda>j. r ! j) [0..<n]) (map (\<lambda>q. B ! q) R) = map (\<lambda>q. B ! q) R"
  proof -
    have "map (\<lambda>j. (B ! q) ! j) [0..<n] = B ! q" if "q \<in> set R" for q
      using row [OF that] map_nth [of "B ! q"] by simp
    then show ?thesis by (simp add: comp_def cong: map_cong)
  qed
  with lB R N B show "index (Matrix B) (s, slice_all) = Inr (Matrix (map (\<lambda>q. B ! q) R))"
    by (simp add: select_def ncols_is_mat slice_indices_whole [OF whole_slice_all])
  from row show "is_mat (length R) n (map (\<lambda>q. B ! q) R)"
    by (simp add: is_mat_def list_all_iff)
qed

lemma index_rows_whole:
  assumes k: "whole k" and B: "is_mat N n B" and N: "0 < N"
  shows "index_rows k rows cs (Matrix B) = Inr (Matrix B)"
proof (induction cs)
  case Nil
  show ?case by simp
next
  case (Cons col cs)
  from B have lB: "length B = N" by (rule is_mat_length)
  have "index (Matrix B) (k, slice_all) = Inr (Matrix (map (\<lambda>q. B ! q) [0..<N]))"
    using index_rows_only(1) [OF B N slice_indices_whole [OF k]] .
  also have "map (\<lambda>q. B ! q) [0..<N] = B"
    using lB map_nth [of B] by simp
  finally show ?case using Cons by (simp add: offset_slice_whole [OF k])
qed

lemma length_column_blocks [simp]: "length (column_blocks rows js) = length js * rows"
  by (induction js) (simp_all add: column_blocks_def)

lemma nth_column_blocks:
  assumes "q < length js" and "i < rows"
  shows "column_blocks rows js ! (q * rows + i) = js ! q * rows + i"
proof -
  have "column_blocks rows js
      = concat (map (\<lambda>q. map (\<lambda>i. js ! q * rows + i) [0..<rows]) [0..<length js])"
    unfolding column_blocks_def
    by (subst map_index [of _ js]) simp
  then show ?thesis
    using nth_concat_uniform [of "length js" "\<lambda>q. map (\<lambda>i. js ! q * rows + i) [0..<rows]" rows q i]
      assms by simp
qed

lemma length_rows_sel [simp]: "length (rows_sel is js rows) = length is * length js"
  by (simp add: rows_sel_def)

lemma nth_rows_sel:
  "p < length is * length js \<Longrightarrow>
     rows_sel is js rows ! p = js ! (p div length is) * rows + is ! (p mod length is)"
  by (simp add: rows_sel_def)

lemma rows_sel_bound:
  assumes "\<And>i. i \<in> set is \<Longrightarrow> i < rows" and "\<And>j. j \<in> set js \<Longrightarrow> j < cols"
    and "q \<in> set (rows_sel is js rows)"
  shows "q < rows * cols"
proof -
  from assms(3) obtain p where p: "p < length is * length js"
      "q = js ! (p div length is) * rows + is ! (p mod length is)"
    by (auto simp: rows_sel_def)
  from p(1) have "p mod length is < length is" "p div length is < length js"
    by (rule index_bounds)+
  then have "is ! (p mod length is) < rows" "js ! (p div length is) < cols"
    using assms(1, 2) by simp_all
  then show ?thesis unfolding p(2) by (rule column_position)
qed

lemma rows_sel_whole:
  "rows_sel [0..<rows] js rows = column_blocks rows js"
proof (rule nth_equalityI)
  show "length (rows_sel [0..<rows] js rows) = length (column_blocks rows js)"
    by (simp add: mult.commute)
next
  fix p assume "p < length (rows_sel [0..<rows] js rows)"
  then have p: "p < rows * length js" by simp
  then have b: "p mod rows < rows" "p div rows < length js" by (rule index_bounds)+
  have "column_blocks rows js ! (p div rows * rows + p mod rows)
      = js ! (p div rows) * rows + p mod rows"
    using b by (intro nth_column_blocks)
  with p b show "rows_sel [0..<rows] js rows ! p = column_blocks rows js ! p"
    by (simp add: nth_rows_sel)
qed

lemma rows_sel_single:
  "rows_sel is [j] rows = map (\<lambda>i. j * rows + i) is"
proof -
  have "rows_sel is [j] rows = map (\<lambda>p. j * rows + is ! p) [0..<length is]"
    by (simp add: rows_sel_def)
  also have "\<dots> = map (\<lambda>i. j * rows + i) is"
    by (subst map_index [of _ "is"]) simp
  finally show ?thesis .
qed

lemma sel_vadd:
  assumes "length u = n" and "length v = n"
  shows "(\<And>q. q \<in> set R \<Longrightarrow> q < n) \<Longrightarrow>
     map (\<lambda>q. vadd u v ! q) R = vadd (map (\<lambda>q. u ! q) R) (map (\<lambda>q. v ! q) R)"
  using assms by (induction R) (simp_all add: vadd_def)

lemma sel_zero:
  "(\<And>q. q \<in> set R \<Longrightarrow> q < n) \<Longrightarrow> map (\<lambda>q. replicate n (0 :: real) ! q) R = replicate (length R) 0"
  by (induction R) simp_all

lemma sel_vec:
  assumes M: "is_mat rows cols M"
    and I: "\<And>i. i \<in> set is \<Longrightarrow> i < rows" and J: "\<And>j. j \<in> set js \<Longrightarrow> j < cols"
  shows "map (\<lambda>q. vec rows cols M ! q) (rows_sel is js rows)
       = vec (length is) (length js) (map (\<lambda>row. map (\<lambda>j. row ! j) js) (map (\<lambda>i. M ! i) is))"
proof (rule nth_equalityI)
  show "length (map (\<lambda>q. vec rows cols M ! q) (rows_sel is js rows))
      = length (vec (length is) (length js) (map (\<lambda>row. map (\<lambda>j. row ! j) js) (map (\<lambda>i. M ! i) is)))"
    by simp
next
  fix p assume "p < length (map (\<lambda>q. vec rows cols M ! q) (rows_sel is js rows))"
  then have p: "p < length is * length js" by simp
  then have b: "p mod length is < length is" "p div length is < length js"
    by (rule index_bounds)+
  define i where "i = is ! (p mod length is)"
  define j where "j = js ! (p div length is)"
  from b have ij: "i < rows" "j < cols" using I J by (simp_all add: i_def j_def)
  then have q: "j * rows + i < rows * cols" "(j * rows + i) mod rows = i" "(j * rows + i) div rows = j"
    by (rule column_position)+
  have "map (\<lambda>q. vec rows cols M ! q) (rows_sel is js rows) ! p = vec rows cols M ! (j * rows + i)"
    using p by (simp add: nth_rows_sel i_def j_def)
  also have "\<dots> = M ! i ! j" using q by (simp add: nth_vec)
  also have "\<dots> = vec (length is) (length js)
      (map (\<lambda>row. map (\<lambda>j. row ! j) js) (map (\<lambda>i. M ! i) is)) ! p"
    using p b by (simp add: nth_vec i_def j_def)
  finally show "map (\<lambda>q. vec rows cols M ! q) (rows_sel is js rows) ! p
      = vec (length is) (length js) (map (\<lambda>row. map (\<lambda>j. row ! j) js) (map (\<lambda>i. M ! i) is)) ! p" .
qed

lemma mat_vec_sel:
  "(\<And>q. q \<in> set R \<Longrightarrow> q < length B) \<Longrightarrow>
     mat_vec (map (\<lambda>q. B ! q) R) x = map (\<lambda>q. mat_vec B x ! q) R"
  by (simp add: mat_vec_def comp_def cong: map_cong)

lemma index_selects:
  assumes M: "is_mat rows cols M" and pos: "0 < rows"
    and I: "slice_indices k0 rows = Inr is" and J: "slice_indices k1 cols = Inr js"
  shows "index (Matrix M) (k0, k1)
       = Inr (Matrix (map (\<lambda>row. map (\<lambda>j. row ! j) js) (map (\<lambda>i. M ! i) is)))"
  using assms by (simp add: select_def ncols_is_mat is_mat_length)

lemma is_mat_selected:
  "is_mat (length is) (length js) (map (\<lambda>row. map (\<lambda>j. row ! j) js) (map (\<lambda>i. M ! i) is))"
  by (simp add: is_mat_def list_all_iff)

lemma index_term_constant:
  assumes b: "is_mat ra ca (block_rows b)" and pos: "0 < ra" "0 < ca" "0 < length is" "0 < length js"
    and a: "size_op a = (ra, ca)" and k: "data n = Key k0 k1" "slice_indices k0 ra = Inr is"
      "slice_indices k1 ca = Inr js" "size_op n = (length is, length js)"
  shows "\<exists>b'. index_term n a (CONSTANT_ID, sz, b) = Inr (CONSTANT_ID, (length is, length js), b')
           \<and> is_mat (length is) (length js) (block_rows b')
           \<and> vec (length is) (length js) (block_rows b')
               = map (\<lambda>q. vec ra ca (block_rows b) ! q) (rows_sel is js ra)"
proof -
  note I = slice_indices_bound [OF k(2)] and J = slice_indices_bound [OF k(3)]
  show ?thesis
  proof (cases b)
    case (Scalar x)
    with b have one: "ra = 1" "ca = 1" by (auto simp: block_rows_def is_mat_def)
    from slice_indices_length [OF k(2)] one(1) pos(3) have "length is = 1" by linarith
    moreover from slice_indices_length [OF k(3)] one(2) pos(4) have "length js = 1" by linarith
    ultimately have len: "length is = 1" "length js = 1" .
    then obtain i j where ij: "is = [i]" "js = [j]"
      by (cases "is"; cases js) auto
    with I [of i] J [of j] one have "i = 0" "j = 0" by simp_all
    with ij have "rows_sel is js ra = [0]" by (simp add: rows_sel_def)
    with Scalar k one len show ?thesis
      by (simp add: block_rows_def is_mat_def)
  next
    case (Matrix M)
    with b have M: "is_mat ra ca M" by (simp add: block_rows_def)
    from index_selects [OF M pos(1) k(2, 3)] Matrix k(1, 4) sel_vec [OF M I J] is_mat_selected [of "is" js M]
    show ?thesis by (simp add: block_rows_def)
  qed
qed

lemma index_term_variable:
  assumes B: "is_mat (ra * ca) w B" and pos: "0 < ra" "0 < ca" "0 < length is" "0 < length js"
    and a: "size_op a = (ra, ca)" and k: "data n = Key k0 k1" "slice_indices k0 ra = Inr is"
      "slice_indices k1 ca = Inr js" "size_op n = (length is, length js)"
    and rs: "rows_selected k0 k1 ra ca js (Id v, (vr, vc), Matrix B)"
    and inv: "vr = 1 \<and> vc = 1 \<longrightarrow> ca = 1"
  shows "index_term n a (Id v, (vr, vc), Matrix B)
       = Inr (Id v, (vr, vc), Matrix (map (\<lambda>q. B ! q) (rows_sel is js ra)))"
proof -
  from rs have cb: "slice_indices (scale_slice k1 ra) (ra * ca) = Inr (column_blocks ra js)"
    and pass: "whole k0 \<or> (length js = 1 \<and> vc = 1)"
    by (simp_all add: rows_selected_def)
  note I = slice_indices_bound [OF k(2)] and J = slice_indices_bound [OF k(3)]
  define B1 where "B1 = map (\<lambda>q. B ! q) (column_blocks ra js)"
  from pos have N: "0 < ra * ca" by simp
  have s1: "index (Matrix B) (scale_slice k1 ra, slice_all) = Inr (Matrix B1)"
    and B1: "is_mat (length js * ra) w B1"
    using index_rows_only [OF B N cb] by (simp_all add: B1_def)
  from pos have N1: "0 < length js * ra" by simp
  define cols where "cols = (if (vr, vc) = (1, 1) then ca else vc)"
  have it: "index_term n a (Id v, (vr, vc), Matrix B)
      = (case index_rows k0 ra [0..<cols] (Matrix B1) of Inl e \<Rightarrow> Inl e
         | Inr b' \<Rightarrow> Inr (Id v, (vr, vc), b'))"
    using k(1) a s1 by (auto simp: cols_def)
  from pass show ?thesis
  proof
    assume w: "whole k0"
    with k(2) have "is = [0..<ra]" by (simp add: slice_indices_whole)
    then have "rows_sel is js ra = column_blocks ra js" by (simp add: rows_sel_whole)
    with it index_rows_whole [OF w B1 N1] show ?thesis by (simp add: B1_def)
  next
    assume one: "length js = 1 \<and> vc = 1"
    then obtain j where j: "js = [j]" by (cases js) auto
    from one inv have "cols = 1" by (auto simp: cols_def)
    then have c0: "[0..<cols] = [0]" by simp
    from one B1 have B1': "is_mat ra w B1" by simp
    have "index (Matrix B1) (k0, slice_all) = Inr (Matrix (map (\<lambda>q. B1 ! q) is))"
      using index_rows_only(1) [OF B1' pos(1) k(2)] .
    moreover have "map (\<lambda>q. B1 ! q) is = map (\<lambda>q. B ! q) (rows_sel is js ra)"
    proof -
      have "B1 ! i = B ! (j * ra + i)" if "i \<in> set is" for i
        using I [OF that] j nth_column_blocks [of 0 js i ra] by (simp add: B1_def)
      then have "map (\<lambda>q. B1 ! q) is = map (\<lambda>i. B ! (j * ra + i)) is" by simp
      then show ?thesis by (simp add: j rows_sel_single comp_def)
    qed
    ultimately show ?thesis using it c0 by (simp add: offset_slice_zero)
  qed
qed

lemma index_term_good:
  assumes t: "good env (ra, ca) t" and pos: "0 < ra" "0 < ca" "0 < length is" "0 < length js"
    and a: "size_op a = (ra, ca)" and k: "data n = Key k0 k1" "slice_indices k0 ra = Inr is"
      "slice_indices k1 ca = Inr js" "size_op n = (length is, length js)"
    and rs: "rows_selected k0 k1 ra ca js t"
  shows "\<exists>t'. index_term n a t = Inr t' \<and> good env (length is, length js) t'
           \<and> term_vec env (length is, length js) t'
               = map (\<lambda>q. term_vec env (ra, ca) t ! q) (rows_sel is js ra)"
proof -
  obtain i vr vc b where tt: "t = (i, (vr, vc), b)" by (cases t) auto
  note I = slice_indices_bound [OF k(2)] and J = slice_indices_bound [OF k(3)]
  show ?thesis
  proof (cases i)
    case CONSTANT_ID
    with t tt have "is_mat ra ca (block_rows b)" by simp
    from index_term_constant [OF this pos a k, of "(vr, vc)"] obtain b' where
      b': "index_term n a (CONSTANT_ID, (vr, vc), b) = Inr (CONSTANT_ID, (length is, length js), b')"
        "is_mat (length is) (length js) (block_rows b')"
        "vec (length is) (length js) (block_rows b')
           = map (\<lambda>q. vec ra ca (block_rows b) ! q) (rows_sel is js ra)"
      by blast
    then show ?thesis unfolding tt CONSTANT_ID
      by (intro exI [of _ "(CONSTANT_ID, (length is, length js), b')"]) (simp del: index_term.simps)
  next
    case (Id v)
    with t tt obtain B where B: "b = Matrix B" "is_mat (ra * ca) (vr * vc) B"
        "is_mat vr vc (env v)" "vr = 1 \<and> vc = 1 \<longrightarrow> ca = 1"
      by (auto simp: block_rows_def)
    from rs tt Id B(1) have rs': "rows_selected k0 k1 ra ca js (Id v, (vr, vc), Matrix B)" by simp
    note it = index_term_variable [OF B(2) pos a k rs' B(4)]
    have bound: "q < length B" if "q \<in> set (rows_sel is js ra)" for q
      using rows_sel_bound [of "is" ra js ca q] I J that is_mat_length [OF B(2)] by simp
    have m: "is_mat (length is * length js) (vr * vc) (map (\<lambda>q. B ! q) (rows_sel is js ra))"
      using bound is_mat_row [OF B(2)] is_mat_length [OF B(2)]
      by (simp add: is_mat_def list_all_iff)
    have inv': "vr = 1 \<and> vc = 1 \<longrightarrow> length js = 1"
    proof
      assume "vr = 1 \<and> vc = 1"
      with B(4) have "ca = 1" by blast
      with slice_indices_length [OF k(3)] pos(4) show "length js = 1" by linarith
    qed
    from it m inv' B Id tt mat_vec_sel [of "rows_sel is js ra" B, OF bound] show ?thesis
      by (simp add: block_rows_def)
  qed
qed

lemma map_result_index_term:
  assumes pos: "0 < ra" "0 < ca" "0 < length is" "0 < length js"
    and a: "size_op a = (ra, ca)" and k: "data n = Key k0 k1" "slice_indices k0 ra = Inr is"
      "slice_indices k1 ca = Inr js" "size_op n = (length is, length js)"
  shows "list_all (good env (ra, ca)) cs \<Longrightarrow> list_all (rows_selected k0 k1 ra ca js) cs \<Longrightarrow>
     \<exists>cs'. map_result (index_term n a) cs = Inr cs'
       \<and> list_all (good env (length is, length js)) cs'
       \<and> total_vec env (length is, length js) cs'
           = map (\<lambda>q. total_vec env (ra, ca) cs ! q) (rows_sel is js ra)"
proof (induction cs)
  case Nil
  have "q < ra * ca" if "q \<in> set (rows_sel is js ra)" for q
    using rows_sel_bound [of "is" ra js ca q] slice_indices_bound [OF k(2)]
      slice_indices_bound [OF k(3)] that by simp
  then show ?case by (simp add: sel_zero)
next
  case (Cons t cs)
  then obtain cs' where cs': "map_result (index_term n a) cs = Inr cs'"
      "list_all (good env (length is, length js)) cs'"
      "total_vec env (length is, length js) cs'
         = map (\<lambda>q. total_vec env (ra, ca) cs ! q) (rows_sel is js ra)"
    by auto
  from Cons.prems have t: "good env (ra, ca) t" "rows_selected k0 k1 ra ca js t" by simp_all
  from index_term_good [OF t(1) pos a k t(2)] obtain t' where
    t': "index_term n a t = Inr t'" "good env (length is, length js) t'"
      "term_vec env (length is, length js) t'
         = map (\<lambda>q. term_vec env (ra, ca) t ! q) (rows_sel is js ra)"
    by blast
  have bound: "q < ra * ca" if "q \<in> set (rows_sel is js ra)" for q
    using rows_sel_bound [of "is" ra js ca q] slice_indices_bound [OF k(2)]
      slice_indices_bound [OF k(3)] that by simp
  from t(1) have lt: "length (term_vec env (ra, ca) t) = ra * ca"
    using good_sized [of env "(ra, ca)" t] by (simp add: sized_def)
  from Cons.prems have lc: "length (total_vec env (ra, ca) cs) = ra * ca"
    using length_total_vec [of env "(ra, ca)" cs] by (simp add: good_all_sized)
  from cs' t' show ?case
    by (simp add: sel_vadd [OF lt lc bound])
qed

lemma compiles_index:
  assumes a: "compiles_to env a cs" "size_op a = (ra, ca)"
    and pos: "0 < ra" "0 < ca" "0 < length is" "0 < length js"
    and k: "slice_indices k0 ra = Inr is" "slice_indices k1 ca = Inr js"
    and rs: "list_all (rows_selected k0 k1 ra ca js) cs"
  shows "\<exists>cs'. compiles_to env (LinOp INDEX (length is, length js) (a # rest) (Key k0 k1)) cs'"
proof -
  define n where "n = LinOp INDEX (length is, length js) (a # rest) (Key k0 k1)"
  have nk: "data n = Key k0 k1" "size_op n = (length is, length js)" by (simp_all add: n_def)
  note I = slice_indices_bound [OF k(1)] and J = slice_indices_bound [OF k(2)]
  from a have cs: "get_coefficients a = returns cs" "list_all (good env (ra, ca)) cs"
      "total_vec env (ra, ca) cs = vec ra ca (evaluate env a)" "is_mat ra ca (evaluate env a)"
    by (simp_all add: compiles_to_def)
  from map_result_index_term [OF pos a(2) nk(1) k nk(2) cs(2) rs] obtain cs' where
    cs': "map_result (index_term n a) cs = Inr cs'"
      "list_all (good env (length is, length js)) cs'"
      "total_vec env (length is, length js) cs'
         = map (\<lambda>q. total_vec env (ra, ca) cs ! q) (rows_sel is js ra)"
    by blast
  from cs(1) cs'(1) have g: "get_coefficients n = returns cs'"
    by (simp add: get_coefficients_INDEX index_coeffs.simps n_def)
  have ev: "evaluate env n = map (\<lambda>row. map (\<lambda>j. row ! j) js) (map (\<lambda>i. evaluate env a ! i) is)"
    using index_selects [OF cs(4) pos(1) k] by (simp add: block_rows_def n_def)
  have "total_vec env (length is, length js) cs' = vec (length is) (length js) (evaluate env n)"
    using cs'(3) cs(3) sel_vec [OF cs(4) I J] ev by simp
  moreover have "is_mat (length is) (length js) (evaluate env n)"
    using ev is_mat_selected [of "is" js "evaluate env a"] by simp
  ultimately have "compiles_to env n cs'"
    using g cs'(2) nk by (simp add: compiles_to_def)
  then show ?thesis unfolding n_def ..
qed

subsection \<open>The law\<close>

lemma supported_positive:
  assumes "supported env a" and "size_op a = (r, c)"
  shows "0 < r" and "0 < c"
  using assms by (cases a; simp)+

lemma compiles_triples: "compiles_to env a cs \<Longrightarrow> triples a = cs"
  by (simp add: compiles_to_def triples_def)

lemma compiles_product:
  assumes a: "compiles_to env a lh" "size_op a = (m, k)" and pos: "0 < m" "0 < k" "0 < r" "0 < c"
    and b: "compiles_to env b rh" "size_op b = (k', c)"
    and sh: "(m, k) = (r, k') \<or> (m, k) = (1, 1) \<and> k' = r"
    and ok: "product_ok ((m, k) = (r, k')) c lh rh"
  shows "\<exists>cs'. compiles_to env (LinOp MUL (r, c) (a # b # rest) d) cs'"
proof (cases "rh = []")
  case True
  from a(1) have "get_coefficients a = returns lh" by (simp add: compiles_to_def)
  from compiles_product_zero [OF this a(2) _ b(2) sh] b(1) True show ?thesis by blast
next
  case False
  with ok have ok': "length lh \<le> 1"
    "list_all (\<lambda>l. constant_term l
       \<and> (case snd (snd l) of
             Scalar _ \<Rightarrow> True
           | Matrix _ \<Rightarrow>
               (m = r \<and> k = k')
               \<and> (\<not> is_scalar (snd (snd l)) \<or> c = 1 \<or> list_all constant_term rh))) lh"
    by (simp_all add: product_ok_def)
  show ?thesis
  proof (cases lh)
  case Nil
  from sh show ?thesis
  proof
    assume "(m, k) = (r, k')"
    with a b Nil show ?thesis using compiles_mul_empty [of env a m k b rh c rest d] by auto
  next
    assume "(m, k) = (1, 1) \<and> k' = r"
    with a b Nil show ?thesis using compiles_multiple_empty [of env a b rh r c rest d] by auto
  qed
next
  case (Cons l ls)
  with ok'(1) have ls: "ls = []" by simp
  obtain i lsz L where l: "l = (i, lsz, L)" by (cases l) auto
  from ok'(2) Cons ls l have i: "i = CONSTANT_ID"
    and L: "case L of Scalar _ \<Rightarrow> True
            | Matrix _ \<Rightarrow> (m, k) = (r, k') \<and> (\<not> is_scalar L \<or> c = 1 \<or> list_all constant_term rh)"
    by (auto simp: constant_term_def split: block.splits)
  from a Cons ls l i have a': "compiles_to env a [(CONSTANT_ID, lsz, L)]" by simp
  note leaf = compiles_single_constant [OF a' a(2)]
  show ?thesis
  proof (cases L)
    case (Scalar s)
    with leaf(2) have one: "m = 1" "k = 1" by (auto simp: block_rows_def is_mat_def)
    with sh have "k' = r" by auto
    with a' a(2) b one Scalar pos(4) show ?thesis
      using compiles_multiple [of env a lsz s b rh r c rest d] by simp
  next
    case (Matrix x)
    with leaf(2) have x: "is_mat m k x" by (simp add: block_rows_def)
    from L Matrix have mk: "m = r" "k = k'"
      and L': "\<not> is_scalar (Matrix x) \<or> c = 1 \<or> list_all constant_term rh"
      by simp_all
    have side: "list_all (\<lambda>t. \<forall>x. L = Matrix x \<longrightarrow> m = 1 \<longrightarrow> k = 1 \<longrightarrow> c = 1 \<or> fst t = CONSTANT_ID) rh"
    proof (cases "m = 1 \<and> k = 1")
      case True
      with x pos(1) have "is_scalar (Matrix x)" using is_scalar_matrix [of m k x] by blast
      with L' have "c = 1 \<or> list_all constant_term rh" by simp
      then show ?thesis by (auto simp: list_all_iff constant_term_def)
    next
      case False
      then show ?thesis by (auto simp: list_all_iff)
    qed
    from b(2) mk have b': "size_op b = (k, c)" by simp
    from compiles_mul [OF a' a(2) pos(1, 2, 4) b(1) b' side, of rest d] mk show ?thesis by simp
  qed
  qed
qed

lemma supported_compiles: "supported env n \<Longrightarrow> \<exists>cs. compiles_to env n cs"
proof (induction n rule: measure_induct_rule [where f = size])
  case (less n)
  obtain t r c as d where n: "n = LinOp t (r, c) as d" by (cases n) auto
  have IH: "\<exists>cs. compiles_to env a cs" if "a \<in> set as" "supported env a" for a
    using less.IH [of a] that n size_args [of a n] by simp
  from less.prems n have pos: "0 < r" "0 < c" by simp_all
  from less.prems n consider
      (var) "t = VARIABLE" | (par) "t = PARAM"
    | (const) "t \<in> {SCALAR_CONST, DENSE_CONST, SPARSE_CONST}"
    | (sum) "t = SUM_OP" | (neg) "t = NEG" | (mul) "t = MUL" | (ents) "t = SUM_ENTRIES"
    | (ind) "t = INDEX" | (tr) "t = TRANSPOSE"
    by (auto split: if_splits)
  then show ?case
  proof cases
    case var
    with less.prems n obtain v where "d = VarId v" "is_mat r c (env v)"
      by (auto split: payload.splits)
    with var n show ?thesis using compiles_leaf_variable by blast
  next
    case par
    with less.prems n obtain b where "d = Param b" "is_mat r c (block_rows b)"
      by (auto split: payload.splits)
    with par n show ?thesis using compiles_leaf_constant(1) by blast
  next
    case const
    with less.prems n obtain b where "d = Value b" "is_mat r c (block_rows b)"
      by (auto split: payload.splits)
    with const n show ?thesis using compiles_leaf_constant(2) by blast
  next
    case sum
    with less.prems n have "list_all (\<lambda>a. supported env a \<and> size_op a = (r, c)) as" by simp
    then have "list_all (\<lambda>a. \<exists>cs. compiles_to env a cs \<and> size_op a = (r, c)) as"
      using IH by (auto simp: list_all_iff)
    with sum n show ?thesis using compiles_sum by blast
  next
    case neg
    with less.prems n obtain a rest where a: "as = a # rest" "supported env a" "size_op a = (r, c)"
      by (auto split: list.splits)
    with IH [of a] obtain cs where cs: "compiles_to env a cs" by auto
    from cs a(3) have "compiles_to env (LinOp NEG (r, c) (a # rest) d) (map neg_term cs)"
      by (rule compiles_neg)
    with neg n a(1) show ?thesis by blast
  next
    case mul
    with less.prems n obtain a b rest where a: "as = a # b # rest"
        "supported env a" "supported env b" "snd (size_op b) = c"
        "size_op a = (r, fst (size_op b)) \<or> size_op a = (1, 1) \<and> fst (size_op b) = r"
        "product_ok (size_op a = (r, fst (size_op b))) c (triples a) (triples b)"
      by (auto split: list.splits)
    obtain m k where mk: "size_op a = (m, k)" by (cases "size_op a")
    obtain k' where k': "size_op b = (k', c)" using a(4) by (cases "size_op b") auto
    from a(1, 2) IH [of a] obtain lh where lh: "compiles_to env a lh" by auto
    from a(1, 3) IH [of b] obtain rh where rh: "compiles_to env b rh" by auto
    from a(6) lh rh mk k' have ok: "product_ok ((m, k) = (r, k')) c lh rh"
      by (simp add: compiles_triples)
    from a(5) mk k' have sh: "(m, k) = (r, k') \<or> (m, k) = (1, 1) \<and> k' = r" by simp
    from supported_positive [OF a(2) mk] have "0 < m" "0 < k" by simp_all
    from compiles_product [OF lh mk this pos rh k' sh ok]
    show ?thesis using mul n a(1) by blast
  next
    case ents
    with less.prems n obtain a rest where a: "as = a # rest" "supported env a" "r = 1" "c = 1"
      by (auto split: list.splits)
    with IH [of a] obtain cs where cs: "compiles_to env a cs" by auto
    obtain r' c' where sz: "size_op a = (r', c')" by (cases "size_op a")
    from a(2) sz have "0 < r'" "0 < c'" by (rule supported_positive)+
    with cs sz have "\<exists>cs'. compiles_to env (LinOp SUM_ENTRIES (1, 1) (a # rest) d) cs'"
      by (rule compiles_sum_entries)
    with ents n a show ?thesis by simp
  next
    case ind
    with less.prems n obtain a rest k0 k1 where a: "as = a # rest" "d = Key k0 k1"
        "supported env a" "index_ok k0 k1 (r, c) (size_op a) (triples a)"
      by (auto split: list.splits payload.splits)
    from a(1, 3) IH [of a] obtain cs where cs: "compiles_to env a cs" by auto
    obtain ra ca where sz: "size_op a = (ra, ca)" by (cases "size_op a")
    from a(4) cs sz obtain "is" js where k: "slice_indices k0 ra = Inr is"
        "slice_indices k1 ca = Inr js" "r = length is" "c = length js"
        "list_all (rows_selected k0 k1 ra ca js) cs"
      by (auto simp: compiles_triples split: sum.splits)
    from a(3) sz have "0 < ra" "0 < ca" by (rule supported_positive)+
    from compiles_index [OF cs sz this _ _ k(1, 2, 5), of rest] pos k(3, 4)
    show ?thesis using ind n a(1, 2) by simp
  next
    case tr
    with less.prems n obtain a rest where a: "as = a # rest" "type_op a = VARIABLE"
        "supported env a" "size_op a = (c, r)"
      by (auto split: list.splits)
    then obtain as' v where "a = LinOp VARIABLE (c, r) as' (VarId v)" "is_mat c r (env v)"
      by (cases a) (auto split: payload.splits)
    with tr n a(1) show ?thesis using compiles_transpose [of c r env v as' rest d] by blast
  qed
qed




subsection \<open>Outside these trees\<close>

text \<open>
  A left operand that is a variable is multiplied as if its block were a constant: the
  product of two 1 by 1 variables with values 2 and 3 is reconstructed as 3.  A left
  constant that is a 1 by 1 matrix, over a variable of two columns, is multiplied as a matrix
  with the 2 by 2 block of the variable, which raises.
\<close>

lemma product_of_variables_example:
  "get_coefficients (LinOp MUL (1, 1)
       [LinOp VARIABLE (1, 1) [] (VarId 0), LinOp VARIABLE (1, 1) [] (VarId 1)] NoData)
     = returns [(Id 1, (1, 1), Matrix [[1]])]
   \<and> reconstruct (\<lambda>v. if v = 0 then [[2]] else [[3]]) (1, 1) [(Id 1, (1, 1), Matrix [[1]])] = [[3]]
   \<and> evaluate (\<lambda>v. if v = 0 then [[2]] else [[3]]) (LinOp MUL (1, 1)
       [LinOp VARIABLE (1, 1) [] (VarId 0), LinOp VARIABLE (1, 1) [] (VarId 1)] NoData) = [[6]]"
  by code_simp

lemma product_one_by_one_matrix_example:
  "get_coefficients (LinOp MUL (1, 2)
       [LinOp DENSE_CONST (1, 1) [] (Value (Matrix [[2]])), LinOp VARIABLE (1, 2) [] (VarId 0)] NoData)
     = raises ValueError"
  by code_simp

end
